theory Spec2Isabelle
  imports Main "HOL-Library.Word"
begin

section \<open>Data model\<close>

text \<open>
  The relay of \<^verbatim>\<open>src/server.ts\<close> keeps one process-wide object
  \<^verbatim>\<open>REGISTERED_USERS\<close> that maps a key id (the base64 text of a client's
  exported public key) to a mailbox \<^verbatim>\<open>{ socket, queue }\<close>. A socket is
  represented by its handle, a payload by its bytes, and every \<^verbatim>\<open>emit\<close>,
  forced disconnect and acknowledgment call is appended to a trace, in program order.
  Console logging is left out: it has no effect on the registry or on any socket.
\<close>

type_synonym byte = "8 word"
type_synonym socket_id = nat
type_synonym ack_id = nat
type_synonym envelope = "string \<times> byte list"

record mailbox =
  socket :: "socket_id option"
  queue :: "envelope list"

datatype event =
    Challenge string string
  | Data string "byte list"
  | Error nat string

datatype action =
    Emit socket_id event
  | Close socket_id
  | Ack ack_id

datatype phase = Connected | Disconnected

record session =
  clientKeyId :: string
  challengeBuf :: "byte list option"
  phase :: phase

record server =
  REGISTERED_USERS :: "string \<rightharpoonup> mailbox"
  sessions :: "socket_id \<rightharpoonup> session"
  out :: "action list"

definition init :: server where
  "init = \<lparr>REGISTERED_USERS = Map.empty, sessions = Map.empty, out = []\<rparr>"

datatype exn = TypeError

section \<open>Helpers of \<^verbatim>\<open>src/crypto.ts\<close>\<close>

text \<open>
  \<^verbatim>\<open>Buffer.toString('base64')\<close>: the standard alphabet, three bytes to four
  characters, padded with \<^verbatim>\<open>=\<close>.
\<close>

definition b64_alphabet :: string where
  "b64_alphabet = ''ABCDEFGHIJKLMNOPQRSTUVWXYZabcdefghijklmnopqrstuvwxyz0123456789+/''"

definition b64_char :: "nat \<Rightarrow> char" where
  "b64_char n = b64_alphabet ! (n mod 64)"

fun base64 :: "byte list \<Rightarrow> string" where
  "base64 (a # b # c # rest) =
     [b64_char (unat a div 4),
      b64_char (unat a mod 4 * 16 + unat b div 16),
      b64_char (unat b mod 16 * 4 + unat c div 64),
      b64_char (unat c mod 64)] @ base64 rest"
| "base64 [a, b] =
     [b64_char (unat a div 4),
      b64_char (unat a mod 4 * 16 + unat b div 16),
      b64_char (unat b mod 16 * 4),
      CHR ''='']"
| "base64 [a] =
     [b64_char (unat a div 4),
      b64_char (unat a mod 4 * 16),
      CHR ''='', CHR ''='']"
| "base64 [] = []"

text \<open>
  A public key is represented by the bytes of its SPKI export, so
  \<^verbatim>\<open>exportKey\<close> is the base64 text of those bytes.
\<close>

definition exportKey :: "byte list \<Rightarrow> string" where
  "exportKey key = base64 key"

text \<open>
  The server's key algorithm is ECDH on P-256. The SPKI export of such a key is 91 bytes:
  a header of 27 bytes and the two coordinates of the point, 32 bytes each. The worked
  examples below use the key whose point is the base point of the curve.
\<close>

abbreviation p256_base_point_spki :: "byte list" where
  "p256_base_point_spki \<equiv>
     [0x30, 0x59, 0x30, 0x13, 0x06, 0x07, 0x2A, 0x86, 0x48, 0xCE, 0x3D, 0x02, 0x01,
      0x06, 0x08, 0x2A, 0x86, 0x48, 0xCE, 0x3D, 0x03, 0x01, 0x07, 0x03, 0x42, 0x00, 0x04,
      0x6B, 0x17, 0xD1, 0xF2, 0xE1, 0x2C, 0x42, 0x47, 0xF8, 0xBC, 0xE6, 0xE5, 0x63, 0xA4, 0x40, 0xF2,
      0x77, 0x03, 0x7D, 0x81, 0x2D, 0xEB, 0x33, 0xA0, 0xF4, 0xA1, 0x39, 0x45, 0xD8, 0x98, 0xC2, 0x96,
      0x4F, 0xE3, 0x42, 0xE2, 0xFE, 0x1A, 0x7F, 0x9B, 0x8E, 0xE7, 0xEB, 0x4A, 0x7C, 0x0F, 0x9E, 0x16,
      0x2B, 0xCE, 0x33, 0x57, 0x6B, 0x31, 0x5E, 0xCE, 0xCB, 0xB6, 0x40, 0x68, 0x37, 0xBF, 0x51, 0xF5]"

text \<open>
  \<^verbatim>\<open>str.substring(str.length - 6, str.length - 2)\<close>: a negative bound counts
  as 0, which is what truncating subtraction gives.
\<close>

definition last4 :: "string \<Rightarrow> string" where
  "last4 str = drop (length str - 6) (take (length str - 2) str)"

section \<open>The registry object\<close>

text \<open>
  \<^verbatim>\<open>REGISTERED_USERS\<close> is created as \<^verbatim>\<open>{}\<close>, so it inherits the
  members of \<^verbatim>\<open>Object.prototype\<close>. The code reads it in two ways:
  \<^verbatim>\<open>Object.hasOwn(REGISTERED_USERS, k)\<close> sees own properties only, while
  \<^verbatim>\<open>REGISTERED_USERS[k]\<close> also finds an inherited member, which is an object
  with neither a \<^verbatim>\<open>queue\<close> nor a \<^verbatim>\<open>socket\<close>.
\<close>

definition object_prototype_names :: "string list" where
  "object_prototype_names =
     [''constructor'', ''__defineGetter__'', ''__defineSetter__'', ''hasOwnProperty'',
      ''__lookupGetter__'', ''__lookupSetter__'', ''isPrototypeOf'',
      ''propertyIsEnumerable'', ''toString'', ''valueOf'', ''__proto__'',
      ''toLocaleString'']"

datatype looked = Undefined | Own mailbox | Inherited

definition hasOwn :: "(string \<rightharpoonup> mailbox) \<Rightarrow> string \<Rightarrow> bool" where
  "hasOwn users keyId = (users keyId \<noteq> None)"

definition bracket :: "(string \<rightharpoonup> mailbox) \<Rightarrow> string \<Rightarrow> looked" where
  "bracket users keyId =
     (case users keyId of
        Some mb \<Rightarrow> Own mb
      | None \<Rightarrow> if keyId \<in> set object_prototype_names then Inherited else Undefined)"

section \<open>Registry operations\<close>

text \<open>
  The loop of \<^verbatim>\<open>flushDataQueue\<close>: while the queue is not empty, shift its
  first entry and emit it on the recipient's socket.
\<close>

fun drain :: "socket_id \<Rightarrow> envelope list \<Rightarrow> action list \<Rightarrow> envelope list \<times> action list" where
  "drain sock [] acts = ([], acts)"
| "drain sock ((sessionId, payload) # rest) acts =
     drain sock rest (acts @ [Emit sock (Data sessionId payload)])"

definition flushDataQueue :: "string \<Rightarrow> server \<Rightarrow> server" where
  "flushDataQueue keyId s =
     (case bracket (REGISTERED_USERS s) keyId of
        Own recipient \<Rightarrow>
          (case socket recipient of
             Some sock \<Rightarrow>
               (case drain sock (queue recipient) (out s) of
                  (q, acts) \<Rightarrow>
                    s\<lparr>REGISTERED_USERS := (REGISTERED_USERS s)(keyId \<mapsto> recipient\<lparr>queue := q\<rparr>),
                      out := acts\<rparr>)
           | None \<Rightarrow> s)
      | Inherited \<Rightarrow> s
      | Undefined \<Rightarrow> s)"

text \<open>
  \<^verbatim>\<open>REGISTERED_USERS[keyId]?.queue.push(...)\<close>: the optional chain stops
  only at \<^verbatim>\<open>undefined\<close>. On an inherited member the read of
  \<^verbatim>\<open>queue\<close> gives \<^verbatim>\<open>undefined\<close> and the call of
  \<^verbatim>\<open>push\<close> on it throws.
\<close>

definition sendDataTo :: "string \<Rightarrow> string \<Rightarrow> byte list \<Rightarrow> server \<Rightarrow> exn + server" where
  "sendDataTo keyId sessionId payload s =
     (case bracket (REGISTERED_USERS s) keyId of
        Undefined \<Rightarrow> Inr (flushDataQueue keyId s)
      | Own mb \<Rightarrow>
          Inr (flushDataQueue keyId
            (s\<lparr>REGISTERED_USERS :=
                 (REGISTERED_USERS s)(keyId \<mapsto> mb\<lparr>queue := queue mb @ [(sessionId, payload)]\<rparr>)\<rparr>))
      | Inherited \<Rightarrow> Inl TypeError)"

text \<open>
  The assignment of the second branch creates an own property. The callers pass the
  key id of a connection, which is base64 text (see \<open>exportKey_length\<close> below), so
  the one name for which an assignment would set the prototype instead,
  \<^verbatim>\<open>__proto__\<close>, never arrives here.
\<close>

definition registerMailBox :: "string \<Rightarrow> socket_id \<Rightarrow> server \<Rightarrow> server" where
  "registerMailBox keyId recipientSocket s =
     (case REGISTERED_USERS s keyId of
        Some mb \<Rightarrow>
          flushDataQueue keyId
            (s\<lparr>REGISTERED_USERS :=
                 (REGISTERED_USERS s)(keyId \<mapsto> mb\<lparr>socket := Some recipientSocket\<rparr>)\<rparr>)
      | None \<Rightarrow>
          s\<lparr>REGISTERED_USERS :=
               (REGISTERED_USERS s)(keyId \<mapsto> \<lparr>socket = Some recipientSocket, queue = []\<rparr>)\<rparr>)"

section \<open>Connections and their handlers\<close>

text \<open>
  The handshake of a connection, as the \<^verbatim>\<open>io.use\<close> middleware has let it
  through: \<open>auth_key\<close> is the imported client public key when
  \<^verbatim>\<open>socket.handshake.auth.key\<close> is present (a key that fails to import never
  reaches the connection handler), and \<open>recovered\<close> is the transport's
  \<^verbatim>\<open>socket.recovered\<close> flag.
\<close>

record handshake =
  auth_key :: "byte list option"
  recovered :: bool

text \<open>
  What the transport delivers to the server. A connection comes with the values the
  handler draws from the crypto library: the random \<open>iv\<close>, the random challenge
  and the result of encrypting the challenge. The handler's asynchronous steps are taken
  together.
\<close>

datatype input =
    Connection socket_id handshake "byte list" "byte list" "byte list"
  | RegisterEv socket_id string "ack_id option"
  | DataEv socket_id string string "byte list" "ack_id option"
  | DisconnectEv socket_id

text \<open>
  The body of \<^verbatim>\<open>io.on('connection', ...)\<close>. The session records what the
  closures of the installed listeners capture: \<open>clientKeyId\<close>, and the challenge
  when (and only when) the \<^verbatim>\<open>register\<close> listener is installed.
\<close>

definition on_connection ::
  "socket_id \<Rightarrow> handshake \<Rightarrow> byte list \<Rightarrow> byte list \<Rightarrow> byte list \<Rightarrow> server \<Rightarrow> server" where
  "on_connection sock hs iv challenge encryptedChallenge s =
     (let auth = (auth_key hs \<noteq> None);
          keyId = (case auth_key hs of
                     Some clientPublicKey \<Rightarrow> exportKey clientPublicKey
                   | None \<Rightarrow> ''ANONYMOUS'')
      in if \<not> recovered hs \<and> auth
         then s\<lparr>sessions := (sessions s)(sock \<mapsto>
                   \<lparr>clientKeyId = keyId, challengeBuf = Some challenge, phase = Connected\<rparr>),
                 out := out s @ [Emit sock (Challenge (base64 iv) (base64 encryptedChallenge))]\<rparr>
         else s\<lparr>sessions := (sessions s)(sock \<mapsto>
                   \<lparr>clientKeyId = keyId, challengeBuf = None, phase = Connected\<rparr>)\<rparr>)"

text \<open>The \<^verbatim>\<open>data\<close> listener, installed on every connection.\<close>

definition on_data :: "socket_id \<Rightarrow> string \<Rightarrow> string \<Rightarrow> byte list \<Rightarrow> server \<Rightarrow> exn + server" where
  "on_data sock peerId sessionId payload s =
     (if \<not> hasOwn (REGISTERED_USERS s) peerId
      then Inr (s\<lparr>out := out s @
                  [Emit sock (Error 404 (''Peer '' @ last4 peerId @ '' not found''))]\<rparr>)
      else sendDataTo peerId sessionId payload s)"

text \<open>The \<^verbatim>\<open>disconnect\<close> listener, installed on every connection.\<close>

definition on_disconnect :: "session \<Rightarrow> server \<Rightarrow> server" where
  "on_disconnect sess s =
     (case bracket (REGISTERED_USERS s) (clientKeyId sess) of
        Own mb \<Rightarrow>
          s\<lparr>REGISTERED_USERS := (REGISTERED_USERS s)(clientKeyId sess \<mapsto> mb\<lparr>socket := None\<rparr>)\<rparr>
      | Inherited \<Rightarrow> s
      | Undefined \<Rightarrow> s)"

text \<open>
  The \<^verbatim>\<open>register\<close> listener. It declares one parameter, the claimed
  solution, so an acknowledgment callback sent along by the client is not received.
  \<^verbatim>\<open>socket.disconnect(true)\<close> closes the connection, and the socket's
  \<^verbatim>\<open>disconnect\<close> listener runs before the call returns; the transport
  dispatches no further event on the socket.
\<close>

definition on_register :: "socket_id \<Rightarrow> session \<Rightarrow> byte list \<Rightarrow> string \<Rightarrow> server \<Rightarrow> server" where
  "on_register sock sess challenge solvedChallengeAsString s =
     (if solvedChallengeAsString = base64 challenge
      then registerMailBox (clientKeyId sess) sock s
      else (on_disconnect sess (s\<lparr>out := out s @ [Close sock]\<rparr>))
             \<lparr>sessions := (sessions s)(sock \<mapsto> sess\<lparr>phase := Disconnected\<rparr>)\<rparr>)"

text \<open>
  One step of the server. Every connection has a socket of its own, so a handle that is
  already in use is not connected again. An event is dispatched to the listener installed
  for it, if any; an event without a listener is dropped.
\<close>

fun step :: "input \<Rightarrow> server \<Rightarrow> exn + server" where
  "step (Connection sock hs iv challenge encryptedChallenge) s =
     (case sessions s sock of
        None \<Rightarrow> Inr (on_connection sock hs iv challenge encryptedChallenge s)
      | Some sess \<Rightarrow> Inr s)"
| "step (RegisterEv sock solvedChallengeAsString ack) s =
     (case sessions s sock of
        None \<Rightarrow> Inr s
      | Some sess \<Rightarrow>
          (if phase sess = Connected
           then (case challengeBuf sess of
                   Some challenge \<Rightarrow> Inr (on_register sock sess challenge solvedChallengeAsString s)
                 | None \<Rightarrow> Inr s)
           else Inr s))"
| "step (DataEv sock peerId sessionId payload ack) s =
     (case sessions s sock of
        None \<Rightarrow> Inr s
      | Some sess \<Rightarrow>
          (if phase sess = Connected then on_data sock peerId sessionId payload s else Inr s))"
| "step (DisconnectEv sock) s =
     (case sessions s sock of
        None \<Rightarrow> Inr s
      | Some sess \<Rightarrow>
          (if phase sess = Disconnected then Inr s
           else Inr ((on_disconnect sess s)
                  \<lparr>sessions := (sessions s)(sock \<mapsto> sess\<lparr>phase := Disconnected\<rparr>)\<rparr>)))"

text \<open>A run of the server: an uncaught exception ends it.\<close>

fun run :: "input list \<Rightarrow> server \<Rightarrow> exn + server" where
  "run [] s = Inr s"
| "run (i # rest) s = (case step i s of Inl e \<Rightarrow> Inl e | Inr s' \<Rightarrow> run rest s')"

section \<open>Predicates of the claims\<close>

text \<open>Every mailbox with a live connection bound has an empty queue.\<close>

definition flushed :: "server \<Rightarrow> bool" where
  "flushed s = (\<forall>keyId mb. REGISTERED_USERS s keyId = Some mb \<longrightarrow> socket mb \<noteq> None \<longrightarrow> queue mb = [])"

text \<open>The handle \<open>sock\<close> is bound to some mailbox.\<close>

definition bound_somewhere :: "socket_id \<Rightarrow> server \<Rightarrow> bool" where
  "bound_somewhere sock s = (\<exists>keyId mb. REGISTERED_USERS s keyId = Some mb \<and> socket mb = Some sock)"

text \<open>A challenge has been emitted on \<open>sock\<close>.\<close>

definition challenged :: "socket_id \<Rightarrow> server \<Rightarrow> bool" where
  "challenged sock s = (\<exists>iv c. Emit sock (Challenge iv c) \<in> set (out s))"

text \<open>An acknowledgment callback has been invoked.\<close>

definition acked :: "server \<Rightarrow> bool" where
  "acked s = (\<exists>a. Ack a \<in> set (out s))"

text \<open>The data events emitted on a socket, in order.\<close>

definition emit_all :: "socket_id \<Rightarrow> envelope list \<Rightarrow> action list" where
  "emit_all sock q = map (\<lambda>(sessionId, payload). Emit sock (Data sessionId payload)) q"

text \<open>
  The invariant behind the claims on who is challenged and who is bound: a socket that was
  challenged or is bound to a mailbox has a \<^verbatim>\<open>register\<close> listener, the key
  id of a session with that listener is an exported key, and so is the key id of every
  mailbox row.
\<close>

definition has_register_listener :: "socket_id \<Rightarrow> server \<Rightarrow> bool" where
  "has_register_listener sock s =
     (case sessions s sock of Some sess \<Rightarrow> challengeBuf sess \<noteq> None | None \<Rightarrow> False)"

definition listeners_cover :: "server \<Rightarrow> bool" where
  "listeners_cover s =
     (\<forall>sock. challenged sock s \<or> bound_somewhere sock s \<longrightarrow> has_register_listener sock s)"

definition listener_keys_exported :: "server \<Rightarrow> bool" where
  "listener_keys_exported s =
     (\<forall>sock sess. sessions s sock = Some sess \<longrightarrow> challengeBuf sess \<noteq> None \<longrightarrow>
        (\<exists>key. clientKeyId sess = exportKey key))"

definition rows_exported :: "server \<Rightarrow> bool" where
  "rows_exported s = (\<forall>keyId. REGISTERED_USERS s keyId \<noteq> None \<longrightarrow> (\<exists>key. keyId = exportKey key))"

definition owned :: "server \<Rightarrow> bool" where
  "owned s = (listeners_cover s \<and> listener_keys_exported s \<and> rows_exported s)"

section \<open>Lemmas on the helpers\<close>

lemma base64_length: "length (base64 bs) mod 4 = 0"
  by (induction bs rule: base64.induct) simp_all

lemma exportKey_length: "length (exportKey key) mod 4 = 0"
  by (simp add: exportKey_def base64_length)

lemma exportKey_not_ANONYMOUS: "exportKey key \<noteq> ''ANONYMOUS''"
proof
  assume "exportKey key = ''ANONYMOUS''"
  then have "length (exportKey key) = 9" by simp
  with exportKey_length [of key] show False by simp
qed

lemma base64_length_eq: "length (base64 bs) = 4 * ((length bs + 2) div 3)"
proof (induction bs rule: base64.induct)
  case (1 a b c rest)
  have "(length (a # b # c # rest) + 2) div 3 = Suc ((length rest + 2) div 3)" by simp
  with 1 show ?case by simp
qed simp_all

lemma exportKey_spki_not_inherited:
  assumes "length key = 91"
  shows "exportKey key \<notin> set object_prototype_names"
proof
  assume "exportKey key \<in> set object_prototype_names"
  moreover have "\<forall>n \<in> set object_prototype_names. length n \<le> 20"
    by (simp add: object_prototype_names_def)
  ultimately have "length (exportKey key) \<le> 20" by blast
  moreover have "length (exportKey key) = 124"
    using assms by (simp add: exportKey_def base64_length_eq)
  ultimately show False by simp
qed

lemma exportKey_not_proto: "exportKey key \<noteq> ''__proto__''"
proof
  assume "exportKey key = ''__proto__''"
  then have "length (exportKey key) = 9" by simp
  with exportKey_length [of key] show False by simp
qed

section \<open>Lemmas on the registry operations\<close>

lemma drain_eq:
  "drain sock q acts = ([], acts @ emit_all sock q)"
  by (induction sock q acts rule: drain.induct) (simp_all add: emit_all_def)

lemma bracket_Some: "users keyId = Some mb \<Longrightarrow> bracket users keyId = Own mb"
  by (simp add: bracket_def)

lemma bracket_Undefined:
  "users keyId = None \<Longrightarrow> keyId \<notin> set object_prototype_names \<Longrightarrow> bracket users keyId = Undefined"
  by (simp add: bracket_def)

lemma flushDataQueue_unbound:
  "REGISTERED_USERS s keyId = Some mb \<Longrightarrow> socket mb = None \<Longrightarrow> flushDataQueue keyId s = s"
  by (simp add: flushDataQueue_def bracket_Some)

lemma flushDataQueue_bound:
  "REGISTERED_USERS s keyId = Some mb \<Longrightarrow> socket mb = Some sock \<Longrightarrow>
   flushDataQueue keyId s =
     s\<lparr>REGISTERED_USERS := (REGISTERED_USERS s)(keyId \<mapsto> mb\<lparr>queue := []\<rparr>),
       out := out s @ emit_all sock (queue mb)\<rparr>"
  by (simp add: flushDataQueue_def bracket_Some drain_eq)

lemma flushDataQueue_absent:
  "REGISTERED_USERS s keyId = None \<Longrightarrow> flushDataQueue keyId s = s"
  by (simp add: flushDataQueue_def bracket_def)

lemma mailbox_overwrite [simp]:
  "(mb :: mailbox)\<lparr>socket := a, queue := b\<rparr> = \<lparr>socket = a, queue = b\<rparr>"
  by (cases mb) simp

lemma sendDataTo_unbound:
  "REGISTERED_USERS s keyId = Some mb \<Longrightarrow> socket mb = None \<Longrightarrow>
   sendDataTo keyId sessionId payload s =
     Inr (s\<lparr>REGISTERED_USERS :=
              (REGISTERED_USERS s)(keyId \<mapsto> mb\<lparr>queue := queue mb @ [(sessionId, payload)]\<rparr>)\<rparr>)"
  by (simp add: sendDataTo_def bracket_Some flushDataQueue_def)

lemma sendDataTo_bound:
  "REGISTERED_USERS s keyId = Some mb \<Longrightarrow> socket mb = Some sock \<Longrightarrow>
   sendDataTo keyId sessionId payload s =
     Inr (s\<lparr>REGISTERED_USERS := (REGISTERED_USERS s)(keyId \<mapsto> mb\<lparr>queue := []\<rparr>),
            out := out s @ emit_all sock (queue mb @ [(sessionId, payload)])\<rparr>)"
  by (simp add: sendDataTo_def bracket_Some flushDataQueue_def drain_eq)

lemma sendDataTo_Undefined_noop:
  "REGISTERED_USERS s keyId = None \<Longrightarrow> keyId \<notin> set object_prototype_names \<Longrightarrow>
   sendDataTo keyId sessionId payload s = Inr s"
  by (simp add: sendDataTo_def bracket_Undefined flushDataQueue_def)

text \<open>
  On a name that the registry object inherits and does not own, such as
  \<^verbatim>\<open>toString\<close>, the push of \<^verbatim>\<open>sendDataTo\<close> throws. No key id of a
  connection is such a name, and the \<^verbatim>\<open>data\<close> listener calls
  \<^verbatim>\<open>sendDataTo\<close> only for a key id that has a row.
\<close>

lemma sendDataTo_inherited_throws:
  "REGISTERED_USERS init ''toString'' = None \<and>
   sendDataTo ''toString'' ''t1'' [42] init = Inl TypeError"
  by (simp add: init_def sendDataTo_def bracket_def object_prototype_names_def)

lemma registerMailBox_existing:
  "REGISTERED_USERS s keyId = Some mb \<Longrightarrow>
   registerMailBox keyId sock s =
     s\<lparr>REGISTERED_USERS := (REGISTERED_USERS s)(keyId \<mapsto> \<lparr>socket = Some sock, queue = []\<rparr>),
       out := out s @ emit_all sock (queue mb)\<rparr>"
  by (simp add: registerMailBox_def flushDataQueue_def bracket_Some drain_eq)

lemma registerMailBox_new:
  "REGISTERED_USERS s keyId = None \<Longrightarrow>
   registerMailBox keyId sock s =
     s\<lparr>REGISTERED_USERS := (REGISTERED_USERS s)(keyId \<mapsto> \<lparr>socket = Some sock, queue = []\<rparr>)\<rparr>"
  by (simp add: registerMailBox_def)

lemma registerMailBox_binds:
  "\<exists>mb. REGISTERED_USERS (registerMailBox keyId sock s) keyId = Some mb \<and> socket mb = Some sock"
  by (cases "REGISTERED_USERS s keyId") (simp_all add: registerMailBox_new registerMailBox_existing)

lemma registerMailBox_sessions: "sessions (registerMailBox keyId sock s) = sessions s"
  by (cases "REGISTERED_USERS s keyId") (simp_all add: registerMailBox_new registerMailBox_existing)

lemma registerMailBox_users:
  "REGISTERED_USERS (registerMailBox keyId sock s) =
     (REGISTERED_USERS s)(keyId \<mapsto> \<lparr>socket = Some sock, queue = []\<rparr>)"
  by (cases "REGISTERED_USERS s keyId")
    (simp_all add: registerMailBox_new registerMailBox_existing)

lemma registerMailBox_out: "\<exists>q. out (registerMailBox keyId sock s) = out s @ emit_all sock q"
proof (cases "REGISTERED_USERS s keyId")
  case None
  then have "out (registerMailBox keyId sock s) = out s @ emit_all sock []"
    by (simp add: registerMailBox_new emit_all_def)
  then show ?thesis by blast
next
  case (Some mb)
  then have "out (registerMailBox keyId sock s) = out s @ emit_all sock (queue mb)"
    by (simp add: registerMailBox_existing)
  then show ?thesis by blast
qed

lemma sendDataTo_effect [consumes 1, case_names absent queued flushed]:
  assumes "sendDataTo keyId sessionId payload s = Inr s'"
  obtains "s' = s"
  | mb where "REGISTERED_USERS s keyId = Some mb" and "socket mb = None"
      and "s' = s\<lparr>REGISTERED_USERS :=
              (REGISTERED_USERS s)(keyId \<mapsto> mb\<lparr>queue := queue mb @ [(sessionId, payload)]\<rparr>)\<rparr>"
  | mb sock where "REGISTERED_USERS s keyId = Some mb" and "socket mb = Some sock"
      and "s' = s\<lparr>REGISTERED_USERS := (REGISTERED_USERS s)(keyId \<mapsto> mb\<lparr>queue := []\<rparr>),
                    out := out s @ emit_all sock (queue mb @ [(sessionId, payload)])\<rparr>"
proof (cases "REGISTERED_USERS s keyId")
  case None
  with assms have "s' = s"
    by (simp add: sendDataTo_def bracket_def flushDataQueue_absent split: if_splits)
  then show ?thesis by (rule that(1))
next
  case (Some mb)
  show ?thesis
  proof (cases "socket mb")
    case None
    with assms Some have "s' = s\<lparr>REGISTERED_USERS :=
              (REGISTERED_USERS s)(keyId \<mapsto> mb\<lparr>queue := queue mb @ [(sessionId, payload)]\<rparr>)\<rparr>"
      by (simp add: sendDataTo_unbound)
    with Some None show ?thesis by (rule that(2))
  next
    case b: (Some sock)
    with assms Some have "s' = s\<lparr>REGISTERED_USERS := (REGISTERED_USERS s)(keyId \<mapsto> mb\<lparr>queue := []\<rparr>),
                    out := out s @ emit_all sock (queue mb @ [(sessionId, payload)])\<rparr>"
      by (simp add: sendDataTo_bound)
    with Some b show ?thesis by (rule that(3))
  qed
qed

lemma sendDataTo_sessions:
  assumes "sendDataTo keyId sessionId payload s = Inr s'"
  shows "sessions s' = sessions s"
  using assms by (cases rule: sendDataTo_effect) simp_all

lemma flushDataQueue_dom: "dom (REGISTERED_USERS (flushDataQueue keyId s)) = dom (REGISTERED_USERS s)"
proof (cases "REGISTERED_USERS s keyId")
  case None
  then show ?thesis by (simp add: flushDataQueue_absent)
next
  case (Some mb)
  then show ?thesis
    by (cases "socket mb") (auto simp: flushDataQueue_unbound flushDataQueue_bound)
qed

lemma sendDataTo_dom:
  assumes "sendDataTo keyId sessionId payload s = Inr s'"
  shows "dom (REGISTERED_USERS s') = dom (REGISTERED_USERS s)"
proof (cases "REGISTERED_USERS s keyId")
  case None
  with assms have "s' = s"
    by (simp add: sendDataTo_def bracket_def flushDataQueue_absent split: if_splits)
  then show ?thesis by simp
next
  case (Some mb)
  with assms show ?thesis
    by (cases "socket mb") (auto simp: sendDataTo_unbound sendDataTo_bound split: if_splits)
qed

lemma registerMailBox_dom:
  "dom (REGISTERED_USERS (registerMailBox keyId sock s)) = insert keyId (dom (REGISTERED_USERS s))"
  by (cases "REGISTERED_USERS s keyId") (auto simp: registerMailBox_new registerMailBox_existing)

section \<open>Lemmas on the handlers\<close>

lemma on_disconnect_Some:
  "REGISTERED_USERS s (clientKeyId sess) = Some mb \<Longrightarrow>
   on_disconnect sess s =
     s\<lparr>REGISTERED_USERS := (REGISTERED_USERS s)(clientKeyId sess \<mapsto> mb\<lparr>socket := None\<rparr>)\<rparr>"
  by (simp add: on_disconnect_def bracket_Some)

lemma on_disconnect_None:
  "REGISTERED_USERS s (clientKeyId sess) = None \<Longrightarrow> on_disconnect sess s = s"
  by (simp add: on_disconnect_def bracket_def)

lemma on_disconnect_dom: "dom (REGISTERED_USERS (on_disconnect sess s)) = dom (REGISTERED_USERS s)"
  by (auto simp: on_disconnect_def bracket_def split: option.splits if_splits)

lemma on_disconnect_sessions: "sessions (on_disconnect sess s) = sessions s"
  by (cases "REGISTERED_USERS s (clientKeyId sess)")
    (simp_all add: on_disconnect_None on_disconnect_Some)

lemma on_disconnect_out: "out (on_disconnect sess s) = out s"
  by (cases "REGISTERED_USERS s (clientKeyId sess)")
    (simp_all add: on_disconnect_None on_disconnect_Some)

lemma on_disconnect_out_upd:
  "REGISTERED_USERS (on_disconnect sess (s\<lparr>out := acts\<rparr>)) = REGISTERED_USERS (on_disconnect sess s)"
  by (cases "REGISTERED_USERS s (clientKeyId sess)")
    (simp_all add: on_disconnect_None on_disconnect_Some)

lemma on_connection_users:
  "REGISTERED_USERS (on_connection sock hs iv challenge ct s) = REGISTERED_USERS s"
  by (simp add: on_connection_def Let_def)

lemma on_connection_sessions:
  "sessions (on_connection sock hs iv ch ct s) =
     (sessions s)(sock \<mapsto>
        \<lparr>clientKeyId = (case auth_key hs of Some k \<Rightarrow> exportKey k | None \<Rightarrow> ''ANONYMOUS''),
         challengeBuf = (if \<not> recovered hs \<and> auth_key hs \<noteq> None then Some ch else None),
         phase = Connected\<rparr>)"
  by (simp add: on_connection_def Let_def)

lemma on_connection_out:
  "out (on_connection sock hs iv ch ct s) =
     (if \<not> recovered hs \<and> auth_key hs \<noteq> None
      then out s @ [Emit sock (Challenge (base64 iv) (base64 ct))] else out s)"
  by (simp add: on_connection_def Let_def)

lemma step_effect [consumes 1, case_names same connect accept reject notfound send disconnect]:
  assumes "step i s = Inr s'"
  obtains "s' = s"
  | sock hs iv ch ct where "sessions s sock = None" and "s' = on_connection sock hs iv ch ct s"
  | sock sess ch where "sessions s sock = Some sess" and "challengeBuf sess = Some ch"
      and "s' = registerMailBox (clientKeyId sess) sock s"
  | sock sess ch where "sessions s sock = Some sess" and "challengeBuf sess = Some ch"
      and "out s' = out s @ [Close sock]"
      and "sessions s' = (sessions s)(sock \<mapsto> sess\<lparr>phase := Disconnected\<rparr>)"
      and "REGISTERED_USERS s' = REGISTERED_USERS (on_disconnect sess s)"
  | sock peerId where
      "s' = s\<lparr>out := out s @ [Emit sock (Error 404 (''Peer '' @ last4 peerId @ '' not found''))]\<rparr>"
  | peerId sessionId payload where "sendDataTo peerId sessionId payload s = Inr s'"
  | sock sess where "sessions s sock = Some sess"
      and "s' = (on_disconnect sess s)\<lparr>sessions := (sessions s)(sock \<mapsto> sess\<lparr>phase := Disconnected\<rparr>)\<rparr>"
proof (cases i)
  case (Connection sock hs iv ch ct)
  show ?thesis
  proof (cases "sessions s sock")
    case None
    with assms Connection have "s' = on_connection sock hs iv ch ct s" by simp
    with None show ?thesis by (rule that(2))
  next
    case (Some sess)
    with assms Connection have "s' = s" by simp
    then show ?thesis by (rule that(1))
  qed
next
  case (RegisterEv sock solved ack)
  show ?thesis
  proof (cases "sessions s sock")
    case None
    with assms RegisterEv have "s' = s" by simp
    then show ?thesis by (rule that(1))
  next
    case (Some sess)
    show ?thesis
    proof (cases "challengeBuf sess")
      case None
      with assms RegisterEv Some have "s' = s" by (simp split: if_splits)
      then show ?thesis by (rule that(1))
    next
      case ch: (Some ch)
      show ?thesis
      proof (cases "phase sess = Connected")
        case False
        with assms RegisterEv Some have "s' = s" by simp
        then show ?thesis by (rule that(1))
      next
        case True
        show ?thesis
        proof (cases "solved = base64 ch")
          case True
          with assms RegisterEv Some ch \<open>phase sess = Connected\<close>
          have "s' = registerMailBox (clientKeyId sess) sock s"
            by (simp add: on_register_def)
          with Some ch show ?thesis by (rule that(3))
        next
          case False
          with assms RegisterEv Some ch \<open>phase sess = Connected\<close>
          have e: "s' = (on_disconnect sess (s\<lparr>out := out s @ [Close sock]\<rparr>))
                    \<lparr>sessions := (sessions s)(sock \<mapsto> sess\<lparr>phase := Disconnected\<rparr>)\<rparr>"
            by (simp add: on_register_def)
          show ?thesis
            by (rule that(4) [OF Some ch]) (simp_all add: e on_disconnect_out on_disconnect_out_upd)
        qed
      qed
    qed
  qed
next
  case (DataEv sock peerId sessionId payload ack)
  show ?thesis
  proof (cases "sessions s sock")
    case None
    with assms DataEv have "s' = s" by simp
    then show ?thesis by (rule that(1))
  next
    case (Some sess)
    show ?thesis
    proof (cases "phase sess = Connected")
      case False
      with assms DataEv Some have "s' = s" by simp
      then show ?thesis by (rule that(1))
    next
      case True
      show ?thesis
      proof (cases "hasOwn (REGISTERED_USERS s) peerId")
        case False
        with assms DataEv Some True
        have "s' = s\<lparr>out := out s @
            [Emit sock (Error 404 (''Peer '' @ last4 peerId @ '' not found''))]\<rparr>"
          by (simp add: on_data_def)
        then show ?thesis by (rule that(5))
      next
        case own: True
        with assms DataEv Some True
        have "sendDataTo peerId sessionId payload s = Inr s'"
          by (simp add: on_data_def)
        then show ?thesis by (rule that(6))
      qed
    qed
  qed
next
  case (DisconnectEv sock)
  show ?thesis
  proof (cases "sessions s sock")
    case None
    with assms DisconnectEv have "s' = s" by simp
    then show ?thesis by (rule that(1))
  next
    case (Some sess)
    show ?thesis
    proof (cases "phase sess = Disconnected")
      case True
      with assms DisconnectEv Some have "s' = s" by simp
      then show ?thesis by (rule that(1))
    next
      case False
      with assms DisconnectEv Some
      have "s' = (on_disconnect sess s)\<lparr>sessions := (sessions s)(sock \<mapsto> sess\<lparr>phase := Disconnected\<rparr>)\<rparr>"
        by simp
      with Some show ?thesis by (rule that(7))
    qed
  qed
qed

lemma step_total: "\<exists>s'. step i s = Inr s'"
  by (cases i) (auto simp: on_data_def sendDataTo_def hasOwn_def bracket_def split: option.splits)

lemma run_total: "\<exists>s'. run inputs s = Inr s'"
proof (induction inputs arbitrary: s)
  case Nil
  show ?case by simp
next
  case (Cons i rest)
  obtain s1 where "step i s = Inr s1" using step_total by blast
  with Cons.IH [of s1] show ?case by simp
qed

lemma run_Cons_Inr:
  "run (i # rest) s = Inr s' \<Longrightarrow> \<exists>s1. step i s = Inr s1 \<and> run rest s1 = Inr s'"
  by (auto split: sum.splits)

lemma step_dom:
  assumes "step i s = Inr s'"
  shows "dom (REGISTERED_USERS s) \<subseteq> dom (REGISTERED_USERS s')"
  using assms
proof (cases rule: step_effect)
  case same
  then show ?thesis by simp
next
  case (connect sock hs iv ch ct)
  then show ?thesis by (simp add: on_connection_users)
next
  case (accept sock sess ch)
  then show ?thesis by (simp add: registerMailBox_dom subset_insertI)
next
  case (reject sock sess ch)
  then show ?thesis by (simp add: on_disconnect_dom)
next
  case (notfound sock peerId)
  then show ?thesis by simp
next
  case (send peerId sessionId payload)
  then show ?thesis by (simp add: sendDataTo_dom)
next
  case (disconnect sock sess)
  then show ?thesis by (simp add: on_disconnect_dom)
qed

lemma run_dom: "run inputs s = Inr s' \<Longrightarrow> dom (REGISTERED_USERS s) \<subseteq> dom (REGISTERED_USERS s')"
proof (induction inputs arbitrary: s)
  case Nil
  then show ?case by simp
next
  case (Cons i rest)
  then obtain s1 where s1: "step i s = Inr s1" and r: "run rest s1 = Inr s'"
    by (auto split: sum.splits)
  from step_dom [OF s1] Cons.IH [OF r] show ?case by blast
qed

lemma step_session_static:
  assumes "sessions s c = Some sess" and "step i s = Inr s'"
  shows "\<exists>p. sessions s' c = Some (sess\<lparr>phase := p\<rparr>)"
proof -
  have same: "sessions s' = sessions s \<Longrightarrow> ?thesis"
    using assms(1) by (auto intro: exI [of _ "phase sess"])
  have upd: "sessions s sock = Some sess0 \<Longrightarrow>
      sessions s' = (sessions s)(sock \<mapsto> sess0\<lparr>phase := p\<rparr>) \<Longrightarrow> ?thesis" for sock sess0 p
    using assms(1) by (cases "c = sock") (auto intro: exI [of _ "phase sess"])
  from assms(2) show ?thesis
  proof (cases rule: step_effect)
    case same
    then show ?thesis using \<open>sessions s' = sessions s \<Longrightarrow> ?thesis\<close> by simp
  next
    case (connect sock hs iv ch ct)
    with assms(1) have "c \<noteq> sock" by auto
    with connect(2) assms(1) have "sessions s' c = Some sess"
      by (simp add: on_connection_sessions)
    then show ?thesis by (auto intro: exI [of _ "phase sess"])
  next
    case (accept sock sess0 ch)
    then show ?thesis using \<open>sessions s' = sessions s \<Longrightarrow> ?thesis\<close>
      by (simp add: registerMailBox_sessions)
  next
    case (reject sock sess0 ch)
    show ?thesis by (rule upd [OF reject(1), where p = Disconnected]) (rule reject(4))
  next
    case (notfound sock peerId)
    then show ?thesis using \<open>sessions s' = sessions s \<Longrightarrow> ?thesis\<close> by simp
  next
    case (send peerId sessionId payload)
    then show ?thesis using \<open>sessions s' = sessions s \<Longrightarrow> ?thesis\<close>
      by (simp add: sendDataTo_sessions)
  next
    case (disconnect sock sess0)
    show ?thesis by (rule upd [OF disconnect(1), where p = Disconnected]) (simp add: disconnect(2))
  qed
qed

lemma run_session_static:
  "sessions s c = Some sess \<Longrightarrow> run inputs s = Inr s' \<Longrightarrow>
   \<exists>p. sessions s' c = Some (sess\<lparr>phase := p\<rparr>)"
proof (induction inputs arbitrary: s sess)
  case Nil
  then show ?case by (auto intro: exI [of _ "phase sess"])
next
  case (Cons i rest)
  from run_Cons_Inr [OF Cons.prems(2)] obtain s1
    where s1: "step i s = Inr s1" and r: "run rest s1 = Inr s'" by blast
  from step_session_static [OF Cons.prems(1) s1] obtain p
    where "sessions s1 c = Some (sess\<lparr>phase := p\<rparr>)" by blast
  from Cons.IH [OF this r] show ?case by auto
qed

section \<open>The queue of a bound mailbox\<close>

lemma flushed_init: "flushed init"
  by (simp add: flushed_def init_def)

lemma flushed_upd:
  assumes "flushed s" and "socket mb' \<noteq> None \<longrightarrow> queue mb' = []"
    and "REGISTERED_USERS s' = (REGISTERED_USERS s)(keyId \<mapsto> mb')"
  shows "flushed s'"
  unfolding flushed_def
proof (intro allI impI)
  fix k mb
  assume k: "REGISTERED_USERS s' k = Some mb" and b: "socket mb \<noteq> None"
  show "queue mb = []"
  proof (cases "k = keyId")
    case True
    with k assms(3) have "mb = mb'" by simp
    with b assms(2) show ?thesis by simp
  next
    case False
    with k assms(3) have "REGISTERED_USERS s k = Some mb" by simp
    with b assms(1) show ?thesis unfolding flushed_def by blast
  qed
qed

lemma flushed_sendDataTo:
  assumes "flushed s" and "sendDataTo keyId sessionId payload s = Inr s'"
  shows "flushed s'"
proof (cases "REGISTERED_USERS s keyId")
  case None
  with assms(2) have "s' = s"
    by (simp add: sendDataTo_def bracket_def flushDataQueue_absent split: if_splits)
  with assms(1) show ?thesis by simp
next
  case (Some mb)
  show ?thesis
  proof (cases "socket mb")
    case None
    with Some assms(2)
    have eq: "REGISTERED_USERS s' =
        (REGISTERED_USERS s)(keyId \<mapsto> mb\<lparr>queue := queue mb @ [(sessionId, payload)]\<rparr>)"
      by (auto simp: sendDataTo_unbound)
    show ?thesis by (rule flushed_upd [OF assms(1) _ eq]) (simp add: None)
  next
    case (Some sock)
    with \<open>REGISTERED_USERS s keyId = Some mb\<close> assms(2)
    have eq: "REGISTERED_USERS s' = (REGISTERED_USERS s)(keyId \<mapsto> mb\<lparr>queue := []\<rparr>)"
      by (auto simp: sendDataTo_bound)
    show ?thesis by (rule flushed_upd [OF assms(1) _ eq]) simp
  qed
qed

lemma flushed_registerMailBox:
  assumes "flushed s"
  shows "flushed (registerMailBox keyId sock s)"
proof -
  have eq: "REGISTERED_USERS (registerMailBox keyId sock s) =
      (REGISTERED_USERS s)(keyId \<mapsto> \<lparr>socket = Some sock, queue = []\<rparr>)"
    by (cases "REGISTERED_USERS s keyId")
      (simp_all add: registerMailBox_new registerMailBox_existing)
  show ?thesis by (rule flushed_upd [OF assms _ eq]) simp
qed

lemma flushed_on_disconnect:
  assumes "flushed s"
  shows "flushed (on_disconnect sess s)"
proof (cases "REGISTERED_USERS s (clientKeyId sess)")
  case None
  with assms show ?thesis by (simp add: on_disconnect_None)
next
  case (Some mb)
  then have eq: "REGISTERED_USERS (on_disconnect sess s) =
      (REGISTERED_USERS s)(clientKeyId sess \<mapsto> mb\<lparr>socket := None\<rparr>)"
    by (simp add: on_disconnect_Some)
  show ?thesis by (rule flushed_upd [OF assms _ eq]) simp
qed

lemma flushed_users_cong:
  "REGISTERED_USERS s' = REGISTERED_USERS s \<Longrightarrow> flushed s \<Longrightarrow> flushed s'"
  by (simp add: flushed_def)

lemma flushed_step:
  assumes "flushed s" and "step i s = Inr s'"
  shows "flushed s'"
  using assms(2)
proof (cases rule: step_effect)
  case same
  with assms(1) show ?thesis by simp
next
  case (connect sock hs iv ch ct)
  then have "REGISTERED_USERS s' = REGISTERED_USERS s" by (simp add: on_connection_users)
  then show ?thesis using assms(1) by (rule flushed_users_cong)
next
  case (accept sock sess ch)
  with assms(1) show ?thesis by (simp add: flushed_registerMailBox)
next
  case (reject sock sess ch)
  from reject(5) show ?thesis using flushed_on_disconnect [OF assms(1)] by (rule flushed_users_cong)
next
  case (notfound sock peerId)
  then have "REGISTERED_USERS s' = REGISTERED_USERS s" by simp
  then show ?thesis using assms(1) by (rule flushed_users_cong)
next
  case (send peerId sessionId payload)
  with assms(1) show ?thesis by (rule flushed_sendDataTo)
next
  case (disconnect sock sess)
  then have "REGISTERED_USERS s' = REGISTERED_USERS (on_disconnect sess s)" by simp
  then show ?thesis using flushed_on_disconnect [OF assms(1)] by (rule flushed_users_cong)
qed

lemma flushed_run: "flushed s \<Longrightarrow> run inputs s = Inr s' \<Longrightarrow> flushed s'"
proof (induction inputs arbitrary: s)
  case Nil
  then show ?case by simp
next
  case (Cons i rest)
  from run_Cons_Inr [OF Cons.prems(2)] obtain s1
    where s1: "step i s = Inr s1" and r: "run rest s1 = Inr s'" by blast
  from flushed_step [OF Cons.prems(1) s1] r show ?case by (rule Cons.IH)
qed

section \<open>Challenges, bindings and register listeners\<close>

lemma emit_all_no_Challenge: "Emit sock (Challenge iv c) \<notin> set (emit_all r q)"
  by (auto simp: emit_all_def)

lemma challenged_append:
  assumes "out s' = out s @ acts" and "\<And>iv c. Emit sock (Challenge iv c) \<notin> set acts"
  shows "challenged sock s' = challenged sock s"
  using assms by (auto simp: challenged_def)

lemma challenged_same: "out s' = out s \<Longrightarrow> challenged sock s' = challenged sock s"
  by (simp add: challenged_def)

lemma challenged_Close:
  "out s' = out s @ [Close sock] \<Longrightarrow> challenged c s' = challenged c s"
  by (rule challenged_append [where acts = "[Close sock]"]) simp_all

lemma challenged_Error:
  "out s' = out s @ [Emit sock (Error n m)] \<Longrightarrow> challenged c s' = challenged c s"
  by (rule challenged_append [where acts = "[Emit sock (Error n m)]"]) simp_all

lemma bound_somewhere_upd_queue:
  assumes "REGISTERED_USERS s keyId = Some mb"
    and "REGISTERED_USERS s' = (REGISTERED_USERS s)(keyId \<mapsto> mb\<lparr>queue := q\<rparr>)"
  shows "bound_somewhere sock s' = bound_somewhere sock s"
proof
  assume "bound_somewhere sock s'"
  then obtain k mb' where k: "REGISTERED_USERS s' k = Some mb'" and b: "socket mb' = Some sock"
    unfolding bound_somewhere_def by blast
  show "bound_somewhere sock s"
  proof (cases "k = keyId")
    case True
    with k assms(2) have "mb' = mb\<lparr>queue := q\<rparr>" by simp
    with b have "socket mb = Some sock" by simp
    with assms(1) show ?thesis unfolding bound_somewhere_def by blast
  next
    case False
    with k assms(2) have "REGISTERED_USERS s k = Some mb'" by simp
    with b show ?thesis unfolding bound_somewhere_def by blast
  qed
next
  assume "bound_somewhere sock s"
  then obtain k mb' where k: "REGISTERED_USERS s k = Some mb'" and b: "socket mb' = Some sock"
    unfolding bound_somewhere_def by blast
  show "bound_somewhere sock s'"
  proof (cases "k = keyId")
    case True
    with k assms(1) have "mb' = mb" by simp
    with b assms(2) have "REGISTERED_USERS s' keyId = Some (mb\<lparr>queue := q\<rparr>) \<and>
        socket (mb\<lparr>queue := q\<rparr>) = Some sock" by simp
    then show ?thesis unfolding bound_somewhere_def by blast
  next
    case False
    with k assms(2) have "REGISTERED_USERS s' k = Some mb'" by simp
    with b show ?thesis unfolding bound_somewhere_def by blast
  qed
qed

lemma bound_somewhere_same:
  "REGISTERED_USERS s' = REGISTERED_USERS s \<Longrightarrow> bound_somewhere sock s' = bound_somewhere sock s"
  by (simp add: bound_somewhere_def)

lemma bound_somewhere_upd:
  assumes "REGISTERED_USERS s' = (REGISTERED_USERS s)(keyId \<mapsto> mb')" and "bound_somewhere sock s'"
  shows "socket mb' = Some sock \<or> bound_somewhere sock s"
proof -
  from assms(2) obtain k mb where k: "REGISTERED_USERS s' k = Some mb" and b: "socket mb = Some sock"
    unfolding bound_somewhere_def by blast
  show ?thesis
  proof (cases "k = keyId")
    case True
    with k assms(1) have "mb = mb'" by simp
    with b show ?thesis by simp
  next
    case False
    with k assms(1) have "REGISTERED_USERS s k = Some mb" by simp
    with b show ?thesis unfolding bound_somewhere_def by blast
  qed
qed

lemma sendDataTo_challenged:
  assumes "sendDataTo keyId sessionId payload s = Inr s'"
  shows "challenged sock s' = challenged sock s"
  using assms
proof (cases rule: sendDataTo_effect)
  case absent
  then show ?thesis by simp
next
  case (queued mb)
  show ?thesis by (rule challenged_same) (simp add: queued)
next
  case (flushed mb r)
  show ?thesis
    by (rule challenged_append [where acts = "emit_all r (queue mb @ [(sessionId, payload)])"])
      (simp_all add: flushed emit_all_no_Challenge)
qed

lemma sendDataTo_bound_somewhere:
  assumes "sendDataTo keyId sessionId payload s = Inr s'"
  shows "bound_somewhere sock s' = bound_somewhere sock s"
  using assms
proof (cases rule: sendDataTo_effect)
  case absent
  then show ?thesis by simp
next
  case (queued mb)
  from queued(1) show ?thesis by (rule bound_somewhere_upd_queue) (simp add: queued)
next
  case (flushed mb r)
  from flushed(1) show ?thesis by (rule bound_somewhere_upd_queue) (simp add: flushed)
qed

lemma registerMailBox_challenged:
  "challenged c (registerMailBox keyId sock s) = challenged c s"
proof -
  obtain q where "out (registerMailBox keyId sock s) = out s @ emit_all sock q"
    using registerMailBox_out by blast
  then show ?thesis by (rule challenged_append) (rule emit_all_no_Challenge)
qed

lemma registerMailBox_bound_somewhere:
  assumes "bound_somewhere c (registerMailBox keyId sock s)"
  shows "c = sock \<or> bound_somewhere c s"
  using bound_somewhere_upd [OF registerMailBox_users assms] by auto

lemma on_disconnect_bound_somewhere:
  assumes "bound_somewhere c (on_disconnect sess s)"
  shows "bound_somewhere c s"
proof (cases "REGISTERED_USERS s (clientKeyId sess)")
  case None
  with assms show ?thesis by (simp add: on_disconnect_None)
next
  case (Some mb)
  then have "REGISTERED_USERS (on_disconnect sess s) =
      (REGISTERED_USERS s)(clientKeyId sess \<mapsto> mb\<lparr>socket := None\<rparr>)"
    by (simp add: on_disconnect_Some)
  from bound_somewhere_upd [OF this assms] show ?thesis by simp
qed

lemma has_register_listener_same:
  "sessions s' = sessions s \<Longrightarrow> has_register_listener c s' = has_register_listener c s"
  by (simp add: has_register_listener_def)

lemma has_register_listener_phase:
  "sessions s sock = Some sess \<Longrightarrow>
   sessions s' = (sessions s)(sock \<mapsto> sess\<lparr>phase := p\<rparr>) \<Longrightarrow>
   has_register_listener c s' = has_register_listener c s"
  by (simp add: has_register_listener_def)

lemma has_register_listener_new:
  "sessions s sock = None \<Longrightarrow> sessions s' = (sessions s)(sock \<mapsto> sess) \<Longrightarrow>
   has_register_listener c s' = (if c = sock then challengeBuf sess \<noteq> None else has_register_listener c s)"
  by (simp add: has_register_listener_def)

lemma has_register_listener_session:
  "has_register_listener c s \<Longrightarrow> sessions s c \<noteq> None"
  by (auto simp: has_register_listener_def split: option.splits)

lemma listeners_coverI:
  assumes "\<And>sock. challenged sock s \<Longrightarrow> has_register_listener sock s"
    and "\<And>sock. bound_somewhere sock s \<Longrightarrow> has_register_listener sock s"
  shows "listeners_cover s"
  using assms unfolding listeners_cover_def by blast

lemma listeners_coverD:
  "listeners_cover s \<Longrightarrow> challenged sock s \<or> bound_somewhere sock s \<Longrightarrow> has_register_listener sock s"
  unfolding listeners_cover_def by blast

lemma listeners_cover_cong:
  assumes "listeners_cover s"
    and "\<And>c. challenged c s' \<Longrightarrow> challenged c s"
    and "\<And>c. bound_somewhere c s' \<Longrightarrow> bound_somewhere c s"
    and "\<And>c. has_register_listener c s \<Longrightarrow> has_register_listener c s'"
  shows "listeners_cover s'"
  using assms unfolding listeners_cover_def by blast

lemma listeners_cover_step:
  assumes inv: "listeners_cover s" and st: "step i s = Inr s'"
  shows "listeners_cover s'"
  using st
proof (cases rule: step_effect)
  case same
  with inv show ?thesis by simp
next
  case (connect sock hs iv ch ct)
  let ?sess = "\<lparr>clientKeyId = (case auth_key hs of Some k \<Rightarrow> exportKey k | None \<Rightarrow> ''ANONYMOUS''),
         challengeBuf = (if \<not> recovered hs \<and> auth_key hs \<noteq> None then Some ch else None),
         phase = Connected\<rparr>"
  have se: "sessions s' = (sessions s)(sock \<mapsto> ?sess)"
    using connect(2) by (simp add: on_connection_sessions)
  have l: "has_register_listener c s' =
      (if c = sock then challengeBuf ?sess \<noteq> None else has_register_listener c s)" for c
    using connect(1) se by (rule has_register_listener_new)
  have old: "has_register_listener c s \<Longrightarrow> has_register_listener c s'" for c
    using has_register_listener_session [of c s] connect(1) l [of c] by auto
  show ?thesis
  proof (rule listeners_coverI)
    fix c assume c: "challenged c s'"
    show "has_register_listener c s'"
    proof (cases "challenged c s")
      case True
      with inv have "has_register_listener c s" by (simp add: listeners_coverD)
      then show ?thesis by (rule old)
    next
      case False
      with c connect(2) have "c = sock \<and> \<not> recovered hs \<and> auth_key hs \<noteq> None"
        by (auto simp: challenged_def on_connection_out split: if_splits)
      with l [of c] show ?thesis by simp
    qed
  next
    fix c assume "bound_somewhere c s'"
    with connect(2) have "bound_somewhere c s"
      by (simp add: bound_somewhere_def on_connection_users)
    with inv have "has_register_listener c s" by (simp add: listeners_coverD)
    then show "has_register_listener c s'" by (rule old)
  qed
next
  case (accept sock sess ch)
  have l: "has_register_listener c s' = has_register_listener c s" for c
    by (rule has_register_listener_same) (simp add: accept(3) registerMailBox_sessions)
  have ls: "has_register_listener sock s"
    using accept(1,2) by (simp add: has_register_listener_def)
  show ?thesis
  proof (rule listeners_coverI)
    fix c assume "challenged c s'"
    then have "challenged c s" by (simp add: accept(3) registerMailBox_challenged)
    with inv show "has_register_listener c s'" by (simp add: l listeners_coverD)
  next
    fix c assume "bound_somewhere c s'"
    then have "c = sock \<or> bound_somewhere c s"
      unfolding accept(3) by (rule registerMailBox_bound_somewhere)
    with inv ls show "has_register_listener c s'" by (auto simp: l listeners_coverD)
  qed
next
  case (reject sock sess ch)
  show ?thesis using inv
  proof (rule listeners_cover_cong)
    fix c
    have "challenged c s' = challenged c s"
      by (rule challenged_Close [where sock = sock]) (rule reject(3))
    then show "challenged c s' \<Longrightarrow> challenged c s" by simp
    have "bound_somewhere c s' = bound_somewhere c (on_disconnect sess s)"
      by (rule bound_somewhere_same) (rule reject(5))
    then show "bound_somewhere c s' \<Longrightarrow> bound_somewhere c s"
      using on_disconnect_bound_somewhere by simp
    have "has_register_listener c s' = has_register_listener c s"
      by (rule has_register_listener_phase [OF reject(1), where p = Disconnected]) (rule reject(4))
    then show "has_register_listener c s \<Longrightarrow> has_register_listener c s'" by simp
  qed
next
  case (notfound sock peerId)
  show ?thesis using inv
  proof (rule listeners_cover_cong)
    fix c
    have "challenged c s' = challenged c s"
      by (rule challenged_Error [where sock = sock and n = 404
            and m = "''Peer '' @ last4 peerId @ '' not found''"]) (simp add: notfound)
    then show "challenged c s' \<Longrightarrow> challenged c s" by simp
    have "bound_somewhere c s' = bound_somewhere c s"
      by (rule bound_somewhere_same) (simp add: notfound)
    then show "bound_somewhere c s' \<Longrightarrow> bound_somewhere c s" by simp
    have "has_register_listener c s' = has_register_listener c s"
      by (rule has_register_listener_same) (simp add: notfound)
    then show "has_register_listener c s \<Longrightarrow> has_register_listener c s'" by simp
  qed
next
  case (send peerId sessionId payload)
  show ?thesis using inv
  proof (rule listeners_cover_cong)
    fix c
    show "challenged c s' \<Longrightarrow> challenged c s" by (simp add: sendDataTo_challenged [OF send])
    show "bound_somewhere c s' \<Longrightarrow> bound_somewhere c s"
      by (simp add: sendDataTo_bound_somewhere [OF send])
    have "has_register_listener c s' = has_register_listener c s"
      by (rule has_register_listener_same) (rule sendDataTo_sessions [OF send])
    then show "has_register_listener c s \<Longrightarrow> has_register_listener c s'" by simp
  qed
next
  case (disconnect sock sess)
  show ?thesis using inv
  proof (rule listeners_cover_cong)
    fix c
    have "challenged c s' = challenged c s"
      by (rule challenged_same) (simp add: disconnect(2) on_disconnect_out)
    then show "challenged c s' \<Longrightarrow> challenged c s" by simp
    have "bound_somewhere c s' = bound_somewhere c (on_disconnect sess s)"
      by (rule bound_somewhere_same) (simp add: disconnect(2))
    then show "bound_somewhere c s' \<Longrightarrow> bound_somewhere c s"
      using on_disconnect_bound_somewhere by simp
    have "has_register_listener c s' = has_register_listener c s"
      by (rule has_register_listener_phase [OF disconnect(1), where p = Disconnected])
        (simp add: disconnect(2))
    then show "has_register_listener c s \<Longrightarrow> has_register_listener c s'" by simp
  qed
qed

lemma listener_keys_exported_step:
  assumes inv: "listener_keys_exported s" and st: "step i s = Inr s'"
  shows "listener_keys_exported s'"
  unfolding listener_keys_exported_def
proof (intro allI impI)
  fix c sess'
  assume c: "sessions s' c = Some sess'" and b: "challengeBuf sess' \<noteq> None"
  show "\<exists>key. clientKeyId sess' = exportKey key"
  proof (cases "sessions s c")
    case (Some sess)
    from step_session_static [OF Some st] c obtain p where "sess' = sess\<lparr>phase := p\<rparr>" by auto
    with b Some inv show ?thesis unfolding listener_keys_exported_def by auto
  next
    case None
    from st show ?thesis
    proof (cases rule: step_effect)
      case same
      with None c show ?thesis by simp
    next
      case (connect sock hs iv ch ct)
      with None c b show ?thesis
        by (auto simp: on_connection_sessions split: if_splits)
    next
      case (accept sock sess0 ch)
      with None c show ?thesis by (simp add: registerMailBox_sessions)
    next
      case (reject sock sess0 ch)
      with None c show ?thesis by (auto split: if_splits)
    next
      case (notfound sock peerId)
      with None c show ?thesis by simp
    next
      case (send peerId sessionId payload)
      with None c show ?thesis by (simp add: sendDataTo_sessions)
    next
      case (disconnect sock sess0)
      with None c show ?thesis by (auto simp: on_disconnect_sessions split: if_splits)
    qed
  qed
qed

lemma rows_exported_dom:
  "rows_exported s \<Longrightarrow> dom (REGISTERED_USERS s') \<subseteq> dom (REGISTERED_USERS s) \<Longrightarrow> rows_exported s'"
  unfolding rows_exported_def by (auto simp: dom_def)

lemma rows_exported_step:
  assumes inv: "rows_exported s" and keys: "listener_keys_exported s" and st: "step i s = Inr s'"
  shows "rows_exported s'"
  using st
proof (cases rule: step_effect)
  case same
  with inv show ?thesis by simp
next
  case (connect sock hs iv ch ct)
  show ?thesis by (rule rows_exported_dom [OF inv]) (simp add: connect(2) on_connection_users)
next
  case (accept sock sess ch)
  from keys accept(1,2) obtain key where "clientKeyId sess = exportKey key"
    unfolding listener_keys_exported_def by blast
  with inv show ?thesis
    unfolding rows_exported_def accept(3) registerMailBox_users by auto
next
  case (reject sock sess ch)
  show ?thesis by (rule rows_exported_dom [OF inv]) (simp add: reject(5) on_disconnect_dom)
next
  case (notfound sock peerId)
  show ?thesis by (rule rows_exported_dom [OF inv]) (simp add: notfound)
next
  case (send peerId sessionId payload)
  show ?thesis by (rule rows_exported_dom [OF inv]) (simp add: sendDataTo_dom [OF send])
next
  case (disconnect sock sess)
  show ?thesis by (rule rows_exported_dom [OF inv]) (simp add: disconnect(2) on_disconnect_dom)
qed

lemma owned_init: "owned init"
  by (simp add: owned_def listeners_cover_def listener_keys_exported_def rows_exported_def
      challenged_def bound_somewhere_def init_def)

lemma owned_step: "owned s \<Longrightarrow> step i s = Inr s' \<Longrightarrow> owned s'"
  unfolding owned_def
  using listeners_cover_step listener_keys_exported_step rows_exported_step by blast

lemma owned_run: "owned s \<Longrightarrow> run inputs s = Inr s' \<Longrightarrow> owned s'"
proof (induction inputs arbitrary: s)
  case Nil
  then show ?case by simp
next
  case (Cons i rest)
  from run_Cons_Inr [OF Cons.prems(2)] obtain s1
    where s1: "step i s = Inr s1" and r: "run rest s1 = Inr s'" by blast
  from owned_step [OF Cons.prems(1) s1] r show ?case by (rule Cons.IH)
qed

section \<open>Acknowledgment callbacks\<close>

lemma acked_append:
  assumes "out s' = out s @ acts" and "\<And>a. Ack a \<notin> set acts"
  shows "acked s' = acked s"
  using assms by (auto simp: acked_def)

lemma emit_all_no_Ack: "Ack a \<notin> set (emit_all r q)"
  by (auto simp: emit_all_def)

lemma registerMailBox_acked: "acked (registerMailBox keyId sock s) = acked s"
proof -
  obtain q where "out (registerMailBox keyId sock s) = out s @ emit_all sock q"
    using registerMailBox_out by blast
  then show ?thesis by (rule acked_append) (rule emit_all_no_Ack)
qed

lemma on_connection_acked: "acked (on_connection sock hs iv ch ct s) = acked s"
  by (rule acked_append
      [where acts = "if \<not> recovered hs \<and> auth_key hs \<noteq> None
                     then [Emit sock (Challenge (base64 iv) (base64 ct))] else []"])
    (simp_all add: on_connection_out)

lemma sendDataTo_acked:
  assumes "sendDataTo keyId sessionId payload s = Inr s'"
  shows "acked s' = acked s"
  using assms
proof (cases rule: sendDataTo_effect)
  case absent
  then show ?thesis by simp
next
  case (queued mb)
  show ?thesis by (rule acked_append [where acts = "[]"]) (simp_all add: queued)
next
  case (flushed mb r)
  show ?thesis
    by (rule acked_append [where acts = "emit_all r (queue mb @ [(sessionId, payload)])"])
      (simp_all add: flushed emit_all_no_Ack)
qed

lemma step_acked:
  assumes "step i s = Inr s'"
  shows "acked s' = acked s"
  using assms
proof (cases rule: step_effect)
  case same
  then show ?thesis by simp
next
  case (connect sock hs iv ch ct)
  then show ?thesis by (simp add: on_connection_acked)
next
  case (accept sock sess ch)
  then show ?thesis by (simp add: registerMailBox_acked)
next
  case (reject sock sess ch)
  show ?thesis by (rule acked_append [where acts = "[Close sock]"]) (simp_all add: reject(3))
next
  case (notfound sock peerId)
  show ?thesis
    by (rule acked_append
        [where acts = "[Emit sock (Error 404 (''Peer '' @ last4 peerId @ '' not found''))]"])
      (simp_all add: notfound)
next
  case (send peerId sessionId payload)
  then show ?thesis by (rule sendDataTo_acked)
next
  case (disconnect sock sess)
  show ?thesis by (rule acked_append [where acts = "[]"]) (simp_all add: disconnect(2) on_disconnect_out)
qed

lemma run_acked: "run inputs s = Inr s' \<Longrightarrow> acked s' = acked s"
proof (induction inputs arbitrary: s)
  case Nil
  then show ?case by simp
next
  case (Cons i rest)
  from run_Cons_Inr [OF Cons.prems] obtain s1
    where s1: "step i s = Inr s1" and r: "run rest s1 = Inr s'" by blast
  from Cons.IH [OF r] step_acked [OF s1] show ?case by simp
qed

section \<open>The claims\<close>

text \<open>
  C1. For a mailbox with no live connection, enqueuing \<open>m1\<close>, \<open>m2\<close>, \<open>m3\<close> with
  \<^verbatim>\<open>sendDataTo\<close> emits nothing, and the registration that binds a connection
  then emits the queue in order on that connection: what was queued before, followed by
  \<open>m1\<close>, \<open>m2\<close>, \<open>m3\<close>, so exactly these three when nothing was queued before. The
  queue is empty afterwards, so a further flush emits nothing: each is delivered once.
\<close>

theorem offline_queue_delivered_in_order:
  assumes "REGISTERED_USERS s keyId = Some mb" and "socket mb = None"
  shows "\<exists>s1 s2 s3.
           sendDataTo keyId t1 d1 s = Inr s1 \<and>
           sendDataTo keyId t2 d2 s1 = Inr s2 \<and>
           sendDataTo keyId t3 d3 s2 = Inr s3 \<and>
           out s3 = out s \<and>
           out (registerMailBox keyId sock s3) =
             out s @ emit_all sock (queue mb) @
               [Emit sock (Data t1 d1), Emit sock (Data t2 d2), Emit sock (Data t3 d3)] \<and>
           REGISTERED_USERS (registerMailBox keyId sock s3) keyId =
             Some \<lparr>socket = Some sock, queue = []\<rparr> \<and>
           flushDataQueue keyId (registerMailBox keyId sock s3) = registerMailBox keyId sock s3"
proof -
  let ?q1 = "queue mb @ [(t1, d1)]"
  let ?q2 = "?q1 @ [(t2, d2)]"
  let ?q3 = "?q2 @ [(t3, d3)]"
  let ?s1 = "s\<lparr>REGISTERED_USERS := (REGISTERED_USERS s)(keyId \<mapsto> mb\<lparr>queue := ?q1\<rparr>)\<rparr>"
  let ?s2 = "?s1\<lparr>REGISTERED_USERS := (REGISTERED_USERS ?s1)(keyId \<mapsto> mb\<lparr>queue := ?q2\<rparr>)\<rparr>"
  let ?s3 = "?s2\<lparr>REGISTERED_USERS := (REGISTERED_USERS ?s2)(keyId \<mapsto> mb\<lparr>queue := ?q3\<rparr>)\<rparr>"
  have e1: "sendDataTo keyId t1 d1 s = Inr ?s1"
    using assms by (rule sendDataTo_unbound)
  have e2: "sendDataTo keyId t2 d2 ?s1 = Inr ?s2"
    using sendDataTo_unbound [of ?s1 keyId "mb\<lparr>queue := ?q1\<rparr>" t2 d2] assms by simp
  have e3: "sendDataTo keyId t3 d3 ?s2 = Inr ?s3"
    using sendDataTo_unbound [of ?s2 keyId "mb\<lparr>queue := ?q2\<rparr>" t3 d3] assms by simp
  have r: "registerMailBox keyId sock ?s3 =
      ?s3\<lparr>REGISTERED_USERS := (REGISTERED_USERS ?s3)(keyId \<mapsto> \<lparr>socket = Some sock, queue = []\<rparr>),
         out := out ?s3 @ emit_all sock ?q3\<rparr>"
    using registerMailBox_existing [of ?s3 keyId "mb\<lparr>queue := ?q3\<rparr>" sock] by simp
  have f: "flushDataQueue keyId (registerMailBox keyId sock ?s3) = registerMailBox keyId sock ?s3"
    unfolding r
    using flushDataQueue_bound [of "?s3\<lparr>REGISTERED_USERS := (REGISTERED_USERS ?s3)(keyId \<mapsto> \<lparr>socket = Some sock, queue = []\<rparr>),
         out := out ?s3 @ emit_all sock ?q3\<rparr>" keyId "\<lparr>socket = Some sock, queue = []\<rparr>" sock]
    by (simp add: emit_all_def)
  have o: "out (registerMailBox keyId sock ?s3) =
      out s @ emit_all sock (queue mb) @
        [Emit sock (Data t1 d1), Emit sock (Data t2 d2), Emit sock (Data t3 d3)]"
    unfolding r by (simp add: emit_all_def)
  have u: "REGISTERED_USERS (registerMailBox keyId sock ?s3) keyId =
      Some \<lparr>socket = Some sock, queue = []\<rparr>"
    unfolding r by simp
  have "out ?s3 = out s" by simp
  with e1 e2 e3 o u f show ?thesis by blast
qed

theorem offline_queue_delivered_in_order_witness:
  "\<exists>s1 s2 s3.
     sendDataTo ''QUJD'' ''m1'' [1] (init\<lparr>REGISTERED_USERS := [''QUJD'' \<mapsto> \<lparr>socket = None, queue = []\<rparr>]\<rparr>) = Inr s1 \<and>
     sendDataTo ''QUJD'' ''m2'' [2] s1 = Inr s2 \<and>
     sendDataTo ''QUJD'' ''m3'' [3] s2 = Inr s3 \<and>
     out s3 = [] \<and>
     out (registerMailBox ''QUJD'' 7 s3) =
       [Emit 7 (Data ''m1'' [1]), Emit 7 (Data ''m2'' [2]), Emit 7 (Data ''m3'' [3])] \<and>
     REGISTERED_USERS (registerMailBox ''QUJD'' 7 s3) ''QUJD'' = Some \<lparr>socket = Some 7, queue = []\<rparr> \<and>
     flushDataQueue ''QUJD'' (registerMailBox ''QUJD'' 7 s3) = registerMailBox ''QUJD'' 7 s3"
  using offline_queue_delivered_in_order
    [of "init\<lparr>REGISTERED_USERS := [''QUJD'' \<mapsto> \<lparr>socket = None, queue = []\<rparr>]\<rparr>"
        "''QUJD''" "\<lparr>socket = None, queue = []\<rparr>" "''m1''" "[1]" "''m2''" "[2]" "''m3''" "[3]" 7]
  by (simp add: init_def emit_all_def)

text \<open>
  C2. Take a fresh authenticated connection (a credential, not resumed) on a new socket
  and any state the server reaches afterwards in which that connection is still open.
  Its session still holds the key id of the credential and the challenge drawn at the
  connection. The \<^verbatim>\<open>register\<close> listener accepts the claimed solution exactly
  when it is string-equal to the base64 text of that challenge. On equality it calls
  \<^verbatim>\<open>registerMailBox\<close> with the key id and the socket, which leaves the mailbox
  of the identity bound to this socket and the connection open. On a mismatch it closes
  the socket, and with it runs the \<^verbatim>\<open>disconnect\<close> listener: no mailbox is
  created, the identity's mailbox, if it has one, loses its socket reference, and every
  later \<^verbatim>\<open>register\<close>, \<^verbatim>\<open>data\<close> or \<^verbatim>\<open>disconnect\<close> event
  on this connection is dropped: there is no retry.
\<close>

theorem register_accepts_exact_solution:
  assumes "sessions s0 sock = None"
    and "run later (on_connection sock \<lparr>auth_key = Some key, recovered = False\<rparr> iv challenge ct s0) = Inr s"
    and "sessions s sock = Some sess" and "phase sess = Connected"
  shows "let accepted = registerMailBox (exportKey key) sock s;
             closed = (on_disconnect sess (s\<lparr>out := out s @ [Close sock]\<rparr>))
                        \<lparr>sessions := (sessions s)(sock \<mapsto> sess\<lparr>phase := Disconnected\<rparr>)\<rparr>
         in step (Connection sock \<lparr>auth_key = Some key, recovered = False\<rparr> iv challenge ct) s0 =
              Inr (on_connection sock \<lparr>auth_key = Some key, recovered = False\<rparr> iv challenge ct s0) \<and>
            clientKeyId sess = exportKey key \<and> challengeBuf sess = Some challenge \<and>
            step (RegisterEv sock solved ack) s =
              Inr (if solved = base64 challenge then accepted else closed) \<and>
            (\<exists>mb. REGISTERED_USERS accepted (exportKey key) = Some mb \<and> socket mb = Some sock) \<and>
            sessions accepted = sessions s \<and>
            out closed = out s @ [Close sock] \<and>
            REGISTERED_USERS closed =
              (case REGISTERED_USERS s (exportKey key) of
                 None \<Rightarrow> REGISTERED_USERS s
               | Some mb \<Rightarrow> (REGISTERED_USERS s)(exportKey key \<mapsto> mb\<lparr>socket := None\<rparr>)) \<and>
            step (RegisterEv sock solved' ack') closed = Inr closed \<and>
            step (DataEv sock peerId sessionId payload ack') closed = Inr closed \<and>
            step (DisconnectEv sock) closed = Inr closed"
proof -
  let ?s1 = "on_connection sock \<lparr>auth_key = Some key, recovered = False\<rparr> iv challenge ct s0"
  let ?accepted = "registerMailBox (exportKey key) sock s"
  let ?closed = "(on_disconnect sess (s\<lparr>out := out s @ [Close sock]\<rparr>))
                        \<lparr>sessions := (sessions s)(sock \<mapsto> sess\<lparr>phase := Disconnected\<rparr>)\<rparr>"
  have c: "step (Connection sock \<lparr>auth_key = Some key, recovered = False\<rparr> iv challenge ct) s0 = Inr ?s1"
    using assms(1) by simp
  have "sessions ?s1 sock =
      Some \<lparr>clientKeyId = exportKey key, challengeBuf = Some challenge, phase = Connected\<rparr>"
    by (simp add: on_connection_sessions)
  from run_session_static [OF this assms(2)] assms(3)
  have k: "clientKeyId sess = exportKey key" and n: "challengeBuf sess = Some challenge"
    by auto
  have r: "step (RegisterEv sock solved ack) s =
      Inr (if solved = base64 challenge then ?accepted else ?closed)"
    using assms(3,4) k n by (simp add: on_register_def)
  have o: "out ?closed = out s @ [Close sock]"
    by (simp add: on_disconnect_out)
  have u: "REGISTERED_USERS ?closed =
      (case REGISTERED_USERS s (exportKey key) of
         None \<Rightarrow> REGISTERED_USERS s
       | Some mb \<Rightarrow> (REGISTERED_USERS s)(exportKey key \<mapsto> mb\<lparr>socket := None\<rparr>))"
    using k
    by (cases "REGISTERED_USERS s (exportKey key)")
      (simp_all add: on_disconnect_out_upd on_disconnect_None on_disconnect_Some)
  have se: "sessions ?closed sock = Some (sess\<lparr>phase := Disconnected\<rparr>)" by simp
  have d1: "step (RegisterEv sock solved' ack') ?closed = Inr ?closed"
    using se by (simp del: fun_upd_apply)
  have d2: "step (DataEv sock peerId sessionId payload ack') ?closed = Inr ?closed"
    using se by (simp del: fun_upd_apply)
  have d3: "step (DisconnectEv sock) ?closed = Inr ?closed"
    using se by (simp del: fun_upd_apply)
  from c k n r o u d1 d2 d3 registerMailBox_binds [of "exportKey key" sock s]
    registerMailBox_sessions [of "exportKey key" sock s]
  show ?thesis unfolding Let_def by blast
qed

text \<open>
  An instance: the identity is registered on socket 1; a second connection with the same
  credential on socket 2 is challenged with the bytes 4, 5, 6, whose base64 text is
  \<^verbatim>\<open>BAUG\<close>. The solution \<^verbatim>\<open>BAUG\<close> registers socket 2; the solution
  \<^verbatim>\<open>nope\<close> closes socket 2 and leaves the mailbox with no socket.
\<close>

theorem register_accepts_exact_solution_witness:
  "(let key = p256_base_point_spki;
        s0 = registerMailBox (exportKey key) 1
               (on_connection 1 \<lparr>auth_key = Some key, recovered = False\<rparr>
                  [0, 0, 0] [1, 2, 3] [9, 9, 9, 9] init);
        s = on_connection 2 \<lparr>auth_key = Some key, recovered = False\<rparr>
              [0, 0, 0] [4, 5, 6] [8, 8, 8, 8] s0;
        sess = \<lparr>clientKeyId = exportKey key, challengeBuf = Some [4, 5, 6], phase = Connected\<rparr>;
        closed = (on_disconnect sess (s\<lparr>out := out s @ [Close 2]\<rparr>))
                   \<lparr>sessions := (sessions s)(2 \<mapsto> sess\<lparr>phase := Disconnected\<rparr>)\<rparr>
    in sessions s0 2 = None \<and> run [] s = Inr s \<and> sessions s 2 = Some sess \<and>
       step (RegisterEv 2 ''BAUG'' None) s = Inr (registerMailBox (exportKey key) 2 s) \<and>
       step (RegisterEv 2 ''nope'' None) s = Inr closed \<and>
       REGISTERED_USERS closed (exportKey key) = Some \<lparr>socket = None, queue = []\<rparr> \<and>
       out closed = out s @ [Close 2] \<and>
       step (RegisterEv 2 ''BAUG'' None) closed = Inr closed)"
proof -
  let ?key = "p256_base_point_spki"
  let ?before = "registerMailBox (exportKey ?key) 1
               (on_connection 1 \<lparr>auth_key = Some ?key, recovered = False\<rparr>
                  [0, 0, 0] [1, 2, 3] [9, 9, 9, 9] init)"
  let ?s = "on_connection 2 \<lparr>auth_key = Some ?key, recovered = False\<rparr>
              [0, 0, 0] [4, 5, 6] [8, 8, 8, 8] ?before"
  let ?sess = "\<lparr>clientKeyId = exportKey ?key, challengeBuf = Some [4, 5, 6], phase = Connected\<rparr>"
  let ?closed = "(on_disconnect ?sess (?s\<lparr>out := out ?s @ [Close 2]\<rparr>))
                   \<lparr>sessions := (sessions ?s)(2 \<mapsto> ?sess\<lparr>phase := Disconnected\<rparr>)\<rparr>"
  have "sessions init 2 = None" by (simp add: init_def)
  then have h1: "sessions ?before 2 = None"
    by (simp add: registerMailBox_sessions on_connection_sessions)
  have h2: "run [] ?s = Inr ?s" by simp
  have h3: "sessions ?s 2 = Some ?sess" by (simp add: on_connection_sessions)
  have h4: "phase ?sess = Connected" by simp
  have b: "base64 [4, 5, 6] = ''BAUG''" by (simp add: b64_char_def b64_alphabet_def)
  have row: "REGISTERED_USERS ?s (exportKey ?key) = Some \<lparr>socket = Some 1, queue = []\<rparr>"
    by (simp only: on_connection_users registerMailBox_users fun_upd_same)
  note inst = register_accepts_exact_solution [OF h1 h2 h3 h4, unfolded Let_def b]
  from inst [of "''BAUG''" None "''BAUG''" None "''QUJD''" "''t1''" "[42]"]
  have ok: "step (RegisterEv 2 ''BAUG'' None) ?s = Inr (registerMailBox (exportKey ?key) 2 ?s)"
    and dropped: "step (RegisterEv 2 ''BAUG'' None) ?closed = Inr ?closed"
    and o: "out ?closed = out ?s @ [Close 2]"
    and u: "REGISTERED_USERS ?closed =
      (case REGISTERED_USERS ?s (exportKey ?key) of
         None \<Rightarrow> REGISTERED_USERS ?s
       | Some mb \<Rightarrow> (REGISTERED_USERS ?s)(exportKey ?key \<mapsto> mb\<lparr>socket := None\<rparr>))"
    by simp_all
  from inst [of "''nope''" None "''BAUG''" None "''QUJD''" "''t1''" "[42]"]
  have bad: "step (RegisterEv 2 ''nope'' None) ?s = Inr ?closed"
    by simp
  have unbound: "REGISTERED_USERS ?closed (exportKey ?key) = Some \<lparr>socket = None, queue = []\<rparr>"
    unfolding u row by simp
  from h1 h2 h3 ok bad unbound o dropped show ?thesis unfolding Let_def by blast
qed

text \<open>
  C3. A \<^verbatim>\<open>data\<close> event on an open connection that names a recipient with no
  mailbox row appends exactly one action, the \<^verbatim>\<open>error\<close> event with code 404
  and the message built from the recipient's key id, on the sender's socket. The
  registry and the sessions are unchanged: no mailbox is created, and the sender's
  connection stays open, so its next \<^verbatim>\<open>data\<close> event reaches the listener.
\<close>

theorem unknown_recipient_404:
  assumes "sessions s sock = Some sess" and "phase sess = Connected"
    and "REGISTERED_USERS s peerId = None"
  shows "let s' = s\<lparr>out := out s @ [Emit sock (Error 404 (''Peer '' @ last4 peerId @ '' not found''))]\<rparr>
         in step (DataEv sock peerId sessionId payload ack) s = Inr s' \<and>
            REGISTERED_USERS s' = REGISTERED_USERS s \<and>
            sessions s' sock = Some sess \<and>
            step (DataEv sock peerId' sessionId' payload' ack') s' = on_data sock peerId' sessionId' payload' s'"
  using assms by (simp add: Let_def on_data_def hasOwn_def)

theorem unknown_recipient_404_witness:
  "(let s = on_connection 1 \<lparr>auth_key = None, recovered = False\<rparr> [] [] [] init
    in sessions s 1 = Some \<lparr>clientKeyId = ''ANONYMOUS'', challengeBuf = None, phase = Connected\<rparr> \<and>
       REGISTERED_USERS s ''ghost'' = None \<and>
       step (DataEv 1 ''ghost'' ''t1'' [42] None) s =
         Inr (s\<lparr>out := [Emit 1 (Error 404 ''Peer gho not found'')]\<rparr>))"
proof -
  let ?s = "on_connection 1 \<lparr>auth_key = None, recovered = False\<rparr> [] [] [] init"
  let ?sess = "\<lparr>clientKeyId = ''ANONYMOUS'', challengeBuf = None, phase = Connected\<rparr>"
  have h1: "sessions ?s 1 = Some ?sess" by (simp add: on_connection_def init_def)
  have h2: "phase ?sess = Connected" by simp
  have h3: "REGISTERED_USERS ?s ''ghost'' = None" by (simp add: on_connection_def init_def)
  have o: "out ?s = []" by (simp add: on_connection_def init_def)
  from unknown_recipient_404
    [OF h1 h2 h3, of "''t1''" "[42]" None "''ghost''" "''t1''" "[42]" None, unfolded Let_def]
  have "step (DataEv 1 ''ghost'' ''t1'' [42] None) ?s =
      Inr (?s\<lparr>out := out ?s @ [Emit 1 (Error 404 (''Peer '' @ last4 ''ghost'' @ '' not found''))]\<rparr>)"
    by (rule conjunct1)
  moreover have "''Peer '' @ last4 ''ghost'' @ '' not found'' = ''Peer gho not found''"
    by (simp add: last4_def)
  ultimately have "step (DataEv 1 ''ghost'' ''t1'' [42] None) ?s =
      Inr (?s\<lparr>out := [Emit 1 (Error 404 ''Peer gho not found'')]\<rparr>)"
    using o by (simp only: append_Nil)
  with h1 h3 show ?thesis unfolding Let_def by blast
qed

text \<open>
  C4. A mailbox holds one optional socket, so at most one connection is bound to it.
  Registering the key id of a client first with socket \<open>c1\<close> and then with socket
  \<open>c2\<close> leaves the mailbox bound to \<open>c2\<close> with an empty queue, the second
  registration emits nothing, and from then on a send to this key id, and a flush of
  whatever is queued in this mailbox, emit on \<open>c2\<close> only.
\<close>

theorem second_registration_replaces_binding:
  "let keyId = exportKey key;
       s1 = registerMailBox keyId c1 s;
       s2 = registerMailBox keyId c2 s1
   in REGISTERED_USERS s2 keyId = Some \<lparr>socket = Some c2, queue = []\<rparr> \<and>
      out s2 = out s1 \<and>
      sendDataTo keyId sessionId payload s2 =
        Inr (s2\<lparr>out := out s2 @ [Emit c2 (Data sessionId payload)]\<rparr>) \<and>
      out (flushDataQueue keyId
             (s2\<lparr>REGISTERED_USERS := (REGISTERED_USERS s2)(keyId \<mapsto> \<lparr>socket = Some c2, queue = q\<rparr>)\<rparr>)) =
        out s2 @ emit_all c2 q"
proof -
  let ?k = "exportKey key"
  let ?s1 = "registerMailBox ?k c1 s"
  let ?s2 = "registerMailBox ?k c2 ?s1"
  have u1: "REGISTERED_USERS ?s1 ?k = Some \<lparr>socket = Some c1, queue = []\<rparr>"
    by (simp add: registerMailBox_users)
  have u2: "REGISTERED_USERS ?s2 ?k = Some \<lparr>socket = Some c2, queue = []\<rparr>"
    by (simp add: registerMailBox_users)
  have o2: "out ?s2 = out ?s1"
    using registerMailBox_existing [OF u1, of c2] by (simp add: emit_all_def)
  have sd: "sendDataTo ?k sessionId payload ?s2 =
      Inr (?s2\<lparr>out := out ?s2 @ [Emit c2 (Data sessionId payload)]\<rparr>)"
  proof -
    have idem: "(REGISTERED_USERS ?s2)(?k \<mapsto> \<lparr>socket = Some c2, queue = []\<rparr>) = REGISTERED_USERS ?s2"
      using u2 by (rule map_upd_triv)
    show ?thesis
      using sendDataTo_bound [OF u2, of c2 sessionId payload]
      by (simp add: emit_all_def idem)
  qed
  have fl: "out (flushDataQueue ?k
             (?s2\<lparr>REGISTERED_USERS := (REGISTERED_USERS ?s2)(?k \<mapsto> \<lparr>socket = Some c2, queue = q\<rparr>)\<rparr>)) =
        out ?s2 @ emit_all c2 q"
    using flushDataQueue_bound
      [of "?s2\<lparr>REGISTERED_USERS := (REGISTERED_USERS ?s2)(?k \<mapsto> \<lparr>socket = Some c2, queue = q\<rparr>)\<rparr>"
          ?k "\<lparr>socket = Some c2, queue = q\<rparr>" c2]
    by simp
  from u2 o2 sd fl show ?thesis by (simp add: Let_def)
qed

theorem second_registration_replaces_binding_witness:
  "let keyId = exportKey [65, 66, 67];
       s1 = registerMailBox keyId 1 init;
       s2 = registerMailBox keyId 2 s1
   in REGISTERED_USERS s2 keyId = Some \<lparr>socket = Some 2, queue = []\<rparr> \<and>
      out s2 = out s1 \<and>
      sendDataTo keyId ''t1'' [42] s2 = Inr (s2\<lparr>out := out s2 @ [Emit 2 (Data ''t1'' [42])]\<rparr>) \<and>
      out (flushDataQueue keyId
             (s2\<lparr>REGISTERED_USERS :=
                   (REGISTERED_USERS s2)(keyId \<mapsto> \<lparr>socket = Some 2, queue = [(''t2'', [7])]\<rparr>)\<rparr>)) =
        out s2 @ emit_all 2 [(''t2'', [7])]"
  by (rule second_registration_replaces_binding)



text \<open>
  C6. The \<^verbatim>\<open>disconnect\<close> listener of a connection whose key id has a mailbox
  changes one thing in the registry: the socket reference of that mailbox becomes
  empty. The row stays, its queue is the same, every other row is the same and nothing
  is emitted. No run of the server removes a mailbox row.
\<close>

theorem disconnect_only_unbinds:
  assumes "sessions s sock = Some sess" and "phase sess \<noteq> Disconnected"
    and "REGISTERED_USERS s (clientKeyId sess) = Some mb"
  shows "step (DisconnectEv sock) s =
           Inr (s\<lparr>REGISTERED_USERS := (REGISTERED_USERS s)(clientKeyId sess \<mapsto> mb\<lparr>socket := None\<rparr>),
                  sessions := (sessions s)(sock \<mapsto> sess\<lparr>phase := Disconnected\<rparr>)\<rparr>) \<and>
         queue (mb\<lparr>socket := None\<rparr>) = queue mb \<and>
         (run inputs t = Inr t' \<longrightarrow> dom (REGISTERED_USERS t) \<subseteq> dom (REGISTERED_USERS t'))"
  using assms run_dom [of inputs t t'] by (simp add: on_disconnect_def bracket_Some)

theorem disconnect_only_unbinds_witness:
  "(let s = registerMailBox ''QUJD'' 1
              (on_connection 1 \<lparr>auth_key = Some [65, 66, 67], recovered = False\<rparr>
                 [0, 0, 0] [1, 2, 3] [9, 9, 9, 9] init);
        sess = \<lparr>clientKeyId = ''QUJD'', challengeBuf = Some [1, 2, 3], phase = Connected\<rparr>;
        mb = \<lparr>socket = Some 1, queue = []\<rparr>
    in sessions s 1 = Some sess \<and>
       REGISTERED_USERS s (clientKeyId sess) = Some mb \<and>
       step (DisconnectEv 1) s =
         Inr (s\<lparr>REGISTERED_USERS := (REGISTERED_USERS s)(clientKeyId sess \<mapsto> mb\<lparr>socket := None\<rparr>),
                sessions := (sessions s)(1 \<mapsto> sess\<lparr>phase := Disconnected\<rparr>)\<rparr>) \<and>
       queue (mb\<lparr>socket := None\<rparr>) = queue mb \<and>
       run [DisconnectEv 1] s = Inr (projr (run [DisconnectEv 1] s)) \<and>
       dom (REGISTERED_USERS s) \<subseteq> dom (REGISTERED_USERS (projr (run [DisconnectEv 1] s))))"
proof -
  let ?s = "registerMailBox ''QUJD'' 1
              (on_connection 1 \<lparr>auth_key = Some [65, 66, 67], recovered = False\<rparr>
                 [0, 0, 0] [1, 2, 3] [9, 9, 9, 9] init)"
  let ?sess = "\<lparr>clientKeyId = ''QUJD'', challengeBuf = Some [1, 2, 3], phase = Connected\<rparr>"
  let ?mb = "\<lparr>socket = Some 1, queue = []\<rparr>"
  let ?t = "projr (run [DisconnectEv 1] ?s)"
  have h1: "sessions ?s 1 = Some ?sess"
    by (simp add: registerMailBox_sessions on_connection_sessions exportKey_def
        b64_char_def b64_alphabet_def)
  have h2: "phase ?sess \<noteq> Disconnected" by simp
  have h3: "REGISTERED_USERS ?s (clientKeyId ?sess) = Some ?mb"
    by (simp add: registerMailBox_users)
  have h4: "run [DisconnectEv 1] ?s = Inr ?t"
    using run_total [of "[DisconnectEv 1]" ?s] by auto
  from disconnect_only_unbinds [OF h1 h2 h3, of "[DisconnectEv 1]" ?s ?t] h4
  have "step (DisconnectEv 1) ?s =
         Inr (?s\<lparr>REGISTERED_USERS := (REGISTERED_USERS ?s)(clientKeyId ?sess \<mapsto> ?mb\<lparr>socket := None\<rparr>),
                sessions := (sessions ?s)(1 \<mapsto> ?sess\<lparr>phase := Disconnected\<rparr>)\<rparr>) \<and>
       queue (?mb\<lparr>socket := None\<rparr>) = queue ?mb \<and>
       dom (REGISTERED_USERS ?s) \<subseteq> dom (REGISTERED_USERS ?t)"
    by blast
  with h1 h3 h4 show ?thesis unfolding Let_def by blast
qed

text \<open>
  C7. Take any reachable state and a connection on a fresh socket that presents no
  credential. Whatever the server processes afterwards, on this and on every other
  connection: no challenge is ever emitted on that socket, no mailbox is bound to it, no
  mailbox exists under its key id \<^verbatim>\<open>ANONYMOUS\<close>, its session has no
  \<^verbatim>\<open>register\<close> listener (a \<^verbatim>\<open>register\<close> event on it is dropped),
  and while it is open its \<^verbatim>\<open>data\<close> events to a registered recipient are
  routed: queued when the recipient has no live connection, emitted on the recipient's
  socket otherwise.
\<close>

theorem anonymous_connection_never_registered:
  assumes reach: "run earlier init = Inr s" and fresh: "sessions s sock = None"
    and later: "run (Connection sock \<lparr>auth_key = None, recovered = r\<rparr> iv challenge ct # rest) s = Inr s'"
  shows "\<not> challenged sock s' \<and> \<not> bound_somewhere sock s' \<and>
         REGISTERED_USERS s' ''ANONYMOUS'' = None \<and>
         (\<exists>p. sessions s' sock = Some \<lparr>clientKeyId = ''ANONYMOUS'', challengeBuf = None, phase = p\<rparr>) \<and>
         step (RegisterEv sock solved ack) s' = Inr s' \<and>
         (sessions s' sock = Some sess \<longrightarrow> phase sess = Connected \<longrightarrow>
            REGISTERED_USERS s' peerId = Some mb \<longrightarrow>
            step (DataEv sock peerId sessionId payload ack) s' =
              Inr (case socket mb of
                     None \<Rightarrow> s'\<lparr>REGISTERED_USERS := (REGISTERED_USERS s')
                                 (peerId \<mapsto> mb\<lparr>queue := queue mb @ [(sessionId, payload)]\<rparr>)\<rparr>
                   | Some recipient \<Rightarrow>
                       s'\<lparr>REGISTERED_USERS := (REGISTERED_USERS s')(peerId \<mapsto> mb\<lparr>queue := []\<rparr>),
                          out := out s' @ emit_all recipient (queue mb @ [(sessionId, payload)])\<rparr>))"
proof -
  let ?anon = "\<lparr>clientKeyId = ''ANONYMOUS'', challengeBuf = None, phase = Connected\<rparr>"
  let ?s0 = "on_connection sock \<lparr>auth_key = None, recovered = r\<rparr> iv challenge ct s"
  from run_Cons_Inr [OF later] fresh have rest: "run rest ?s0 = Inr s'" by simp
  have "sessions ?s0 sock = Some ?anon" by (simp add: on_connection_sessions)
  from run_session_static [OF this rest] obtain p
    where sess: "sessions s' sock = Some (?anon\<lparr>phase := p\<rparr>)" by blast
  have own: "owned s'"
    using owned_run [OF owned_run [OF owned_init reach] later] .
  have nl: "\<not> has_register_listener sock s'"
    using sess by (simp add: has_register_listener_def)
  with own have a: "\<not> challenged sock s' \<and> \<not> bound_somewhere sock s'"
    unfolding owned_def listeners_cover_def by blast
  have b: "REGISTERED_USERS s' ''ANONYMOUS'' = None"
  proof (rule ccontr)
    assume "REGISTERED_USERS s' ''ANONYMOUS'' \<noteq> None"
    with own obtain key where "''ANONYMOUS'' = exportKey key"
      unfolding owned_def rows_exported_def by blast
    with exportKey_not_ANONYMOUS [of key] show False by simp
  qed
  have c: "step (RegisterEv sock solved ack) s' = Inr s'"
    using sess by simp
  have d: "step (DataEv sock peerId sessionId payload ack) s' =
              Inr (case socket mb of
                     None \<Rightarrow> s'\<lparr>REGISTERED_USERS := (REGISTERED_USERS s')
                                 (peerId \<mapsto> mb\<lparr>queue := queue mb @ [(sessionId, payload)]\<rparr>)\<rparr>
                   | Some recipient \<Rightarrow>
                       s'\<lparr>REGISTERED_USERS := (REGISTERED_USERS s')(peerId \<mapsto> mb\<lparr>queue := []\<rparr>),
                          out := out s' @ emit_all recipient (queue mb @ [(sessionId, payload)])\<rparr>)"
    if "sessions s' sock = Some sess0" and "phase sess0 = Connected"
      and "REGISTERED_USERS s' peerId = Some mb" for sess0 mb
    using that
    by (cases "socket mb") (simp_all add: on_data_def hasOwn_def sendDataTo_unbound sendDataTo_bound)
  from a b c d sess show ?thesis by auto
qed

theorem anonymous_connection_never_registered_witness:
  "(let earlier = [Connection 2 \<lparr>auth_key = Some [65, 66, 67], recovered = False\<rparr>
                     [0, 0, 0] [1, 2, 3] [9, 9, 9, 9],
                   RegisterEv 2 ''AQID'' None];
        s = projr (run earlier init);
        later = [Connection 1 \<lparr>auth_key = None, recovered = False\<rparr> [0, 0, 0] [4, 5, 6] [8, 8, 8, 8],
                 RegisterEv 1 ''BAUG'' None];
        s' = projr (run later s)
    in run earlier init = Inr s \<and> sessions s 1 = None \<and> run later s = Inr s' \<and>
       \<not> challenged 1 s' \<and> \<not> bound_somewhere 1 s' \<and>
       REGISTERED_USERS s' ''ANONYMOUS'' = None \<and>
       step (RegisterEv 1 ''BAUG'' None) s' = Inr s' \<and>
       step (DataEv 1 ''QUJD'' ''t1'' [42] None) s' =
         Inr (s'\<lparr>REGISTERED_USERS := (REGISTERED_USERS s')(''QUJD'' \<mapsto> \<lparr>socket = Some 2, queue = []\<rparr>),
                 out := out s' @ emit_all 2 [(''t1'', [42])]\<rparr>))"
proof -
  let ?earlier = "[Connection 2 \<lparr>auth_key = Some [65, 66, 67], recovered = False\<rparr>
                     [0, 0, 0] [1, 2, 3] [9, 9, 9, 9],
                   RegisterEv 2 ''AQID'' None]"
  let ?s = "projr (run ?earlier init)"
  let ?later = "[Connection 1 \<lparr>auth_key = None, recovered = False\<rparr> [0, 0, 0] [4, 5, 6] [8, 8, 8, 8],
                 RegisterEv 1 ''BAUG'' None]"
  let ?s' = "projr (run ?later ?s)"
  let ?sess = "\<lparr>clientKeyId = ''ANONYMOUS'', challengeBuf = None, phase = Connected\<rparr>"
  let ?mb = "\<lparr>socket = Some 2, queue = []\<rparr>"
  have h1: "run ?earlier init = Inr ?s"
    using run_total [of ?earlier init] by auto
  have e: "?s = registerMailBox ''QUJD'' 2
      (on_connection 2 \<lparr>auth_key = Some [65, 66, 67], recovered = False\<rparr>
         [0, 0, 0] [1, 2, 3] [9, 9, 9, 9] init)"
    by (simp add: init_def on_connection_def on_register_def exportKey_def
        b64_char_def b64_alphabet_def)
  have h2: "sessions ?s 1 = None"
    unfolding e by (simp add: registerMailBox_sessions on_connection_sessions init_def)
  have h3: "run ?later ?s = Inr ?s'"
    using run_total [of ?later ?s] by auto
  have e': "?s' = on_connection 1 \<lparr>auth_key = None, recovered = False\<rparr> [0, 0, 0] [4, 5, 6] [8, 8, 8, 8] ?s"
    using h2 by (simp add: on_connection_sessions)
  have h4: "sessions ?s' 1 = Some ?sess"
    unfolding e' by (simp add: on_connection_sessions)
  have h5: "phase ?sess = Connected" by simp
  have h6: "REGISTERED_USERS ?s' ''QUJD'' = Some ?mb"
    unfolding e' on_connection_users unfolding e by (simp add: registerMailBox_users)
  from anonymous_connection_never_registered
    [OF h1 h2 h3, of "''BAUG''" None ?sess "''QUJD''" ?mb "''t1''" "[42]"] h4 h5 h6
  have "\<not> challenged 1 ?s' \<and> \<not> bound_somewhere 1 ?s' \<and>
       REGISTERED_USERS ?s' ''ANONYMOUS'' = None \<and>
       step (RegisterEv 1 ''BAUG'' None) ?s' = Inr ?s' \<and>
       step (DataEv 1 ''QUJD'' ''t1'' [42] None) ?s' =
         Inr (?s'\<lparr>REGISTERED_USERS := (REGISTERED_USERS ?s')(''QUJD'' \<mapsto> \<lparr>socket = Some 2, queue = []\<rparr>),
                 out := out ?s' @ emit_all 2 [(''t1'', [42])]\<rparr>)"
    by simp
  with h1 h2 h3 show ?thesis unfolding Let_def by blast
qed

text \<open>
  C8, at the input where the code departs from it. On a fresh authenticated connection a
  \<^verbatim>\<open>register\<close> event carries the correct solution and an acknowledgment
  callback \<open>a\<close>: the mailbox is registered and bound to the socket, and the callback
  is not invoked, since the listener does not receive it.
\<close>

theorem register_success_never_acknowledged:
  assumes "sessions s sock = None" and "\<not> acked s"
  shows "let s1 = on_connection sock \<lparr>auth_key = Some key, recovered = False\<rparr> iv challenge ct s;
             s2 = registerMailBox (exportKey key) sock s1
         in step (RegisterEv sock (base64 challenge) (Some a)) s1 = Inr s2 \<and>
            (\<exists>mb. REGISTERED_USERS s2 (exportKey key) = Some mb \<and> socket mb = Some sock) \<and>
            \<not> acked s2 \<and> Ack a \<notin> set (out s2)"
proof -
  let ?s1 = "on_connection sock \<lparr>auth_key = Some key, recovered = False\<rparr> iv challenge ct s"
  let ?s2 = "registerMailBox (exportKey key) sock ?s1"
  have st: "step (RegisterEv sock (base64 challenge) (Some a)) ?s1 = Inr ?s2"
    by (simp add: on_connection_def on_register_def)
  have "acked ?s2 = acked s" by (simp add: registerMailBox_acked on_connection_acked)
  with assms(2) have na: "\<not> acked ?s2" by simp
  then have "Ack a \<notin> set (out ?s2)" unfolding acked_def by blast
  with st na registerMailBox_binds [of "exportKey key" sock ?s1] show ?thesis
    by (simp add: Let_def)
qed

theorem register_success_never_acknowledged_witness:
  "sessions init 1 = None \<and> \<not> acked init \<and>
   (let s1 = on_connection 1 \<lparr>auth_key = Some [65, 66, 67], recovered = False\<rparr>
               [0, 0, 0] [1, 2, 3] [9, 9, 9, 9] init;
        s2 = registerMailBox (exportKey [65, 66, 67]) 1 s1
    in step (RegisterEv 1 (base64 [1, 2, 3]) (Some 7)) s1 = Inr s2 \<and>
       (\<exists>mb. REGISTERED_USERS s2 (exportKey [65, 66, 67]) = Some mb \<and> socket mb = Some 1) \<and>
       \<not> acked s2 \<and> Ack 7 \<notin> set (out s2))"
proof (intro conjI)
  show h1: "sessions init 1 = None" by (simp add: init_def)
  show h2: "\<not> acked init" by (simp add: acked_def init_def)
  show "let s1 = on_connection 1 \<lparr>auth_key = Some [65, 66, 67], recovered = False\<rparr>
               [0, 0, 0] [1, 2, 3] [9, 9, 9, 9] init;
        s2 = registerMailBox (exportKey [65, 66, 67]) 1 s1
    in step (RegisterEv 1 (base64 [1, 2, 3]) (Some 7)) s1 = Inr s2 \<and>
       (\<exists>mb. REGISTERED_USERS s2 (exportKey [65, 66, 67]) = Some mb \<and> socket mb = Some 1) \<and>
       \<not> acked s2 \<and> Ack 7 \<notin> set (out s2)"
    by (rule register_success_never_acknowledged [OF h1 h2])
qed

text \<open>
  C9. Every run of the server from the empty registry completes without an exception,
  and in the state it reaches every mailbox with a live connection bound has an empty
  queue. Every prefix of a run is a run, so this holds after each operation. Operation
  by operation: registering a mailbox, sending data and unbinding on disconnect each
  keep the property.
\<close>

theorem bound_mailbox_queue_empty:
  "(\<exists>s. run inputs init = Inr s \<and> flushed s) \<and>
   (flushed t \<longrightarrow> flushed (registerMailBox (exportKey key) sock t)) \<and>
   (flushed t \<longrightarrow> sendDataTo keyId sessionId payload t = Inr t' \<longrightarrow> flushed t') \<and>
   (flushed t \<longrightarrow> flushed (on_disconnect sess t))"
proof -
  obtain s where s: "run inputs init = Inr s" using run_total [of inputs init] by blast
  then have "flushed s" using flushed_run [OF flushed_init] by simp
  with s have "\<exists>s. run inputs init = Inr s \<and> flushed s" by blast
  then show ?thesis
    using flushed_registerMailBox [of t "exportKey key" sock]
      flushed_sendDataTo [of t keyId sessionId payload t'] flushed_on_disconnect [of t sess]
    by blast
qed

theorem bound_mailbox_queue_empty_witness:
  "(\<exists>s. run [Connection 1 \<lparr>auth_key = Some [65, 66, 67], recovered = False\<rparr>
               [0, 0, 0] [1, 2, 3] [9, 9, 9, 9],
             RegisterEv 1 ''AQID'' None,
             DisconnectEv 1,
             Connection 2 \<lparr>auth_key = None, recovered = False\<rparr> [] [] [],
             DataEv 2 ''QUJD'' ''t1'' [42] None,
             DataEv 2 ''QUJD'' ''t2'' [43] None,
             Connection 3 \<lparr>auth_key = Some [65, 66, 67], recovered = False\<rparr>
               [0, 0, 0] [4, 5, 6] [8, 8, 8, 8],
             RegisterEv 3 ''BAUG'' None] init = Inr s \<and> flushed s) \<and>
   flushed init \<and>
   flushed (registerMailBox (exportKey [65, 66, 67]) 1 init) \<and>
   flushed (on_disconnect \<lparr>clientKeyId = ''QUJD'', challengeBuf = None, phase = Connected\<rparr> init)"
  using bound_mailbox_queue_empty
    [of "[Connection 1 \<lparr>auth_key = Some [65, 66, 67], recovered = False\<rparr>
               [0, 0, 0] [1, 2, 3] [9, 9, 9, 9],
             RegisterEv 1 ''AQID'' None,
             DisconnectEv 1,
             Connection 2 \<lparr>auth_key = None, recovered = False\<rparr> [] [] [],
             DataEv 2 ''QUJD'' ''t1'' [42] None,
             DataEv 2 ''QUJD'' ''t2'' [43] None,
             Connection 3 \<lparr>auth_key = Some [65, 66, 67], recovered = False\<rparr>
               [0, 0, 0] [4, 5, 6] [8, 8, 8, 8],
             RegisterEv 3 ''BAUG'' None]" init "[65, 66, 67]" 1 _ _ _ _
        "\<lparr>clientKeyId = ''QUJD'', challengeBuf = None, phase = Connected\<rparr>"]
    flushed_init
  by blast

text \<open>
  C10. An identity is the key id of a connection: the export of a client's P-256 public
  key (91 bytes in SPKI form), or \<^verbatim>\<open>ANONYMOUS\<close> for a connection without a
  credential. For every identity that has no mailbox row, \<^verbatim>\<open>sendDataTo\<close>
  returns normally with the state it was given: it throws nothing, creates no mailbox,
  emits nothing and leaves the registry unchanged; so does the flush it ends with.
\<close>

theorem sendDataTo_unregistered_identity_noop:
  "(length key = 91 \<longrightarrow> REGISTERED_USERS s (exportKey key) = None \<longrightarrow>
      sendDataTo (exportKey key) sessionId payload s = Inr s \<and>
      flushDataQueue (exportKey key) s = s) \<and>
   (REGISTERED_USERS s ''ANONYMOUS'' = None \<longrightarrow>
      sendDataTo ''ANONYMOUS'' sessionId payload s = Inr s \<and>
      flushDataQueue ''ANONYMOUS'' s = s)"
proof -
  have "''ANONYMOUS'' \<notin> set object_prototype_names"
    by (simp add: object_prototype_names_def)
  then show ?thesis
    using exportKey_spki_not_inherited [of key]
    by (simp add: sendDataTo_Undefined_noop flushDataQueue_absent)
qed

theorem sendDataTo_unregistered_identity_noop_witness:
  "length p256_base_point_spki = 91 \<and>
   REGISTERED_USERS init (exportKey p256_base_point_spki) = None \<and>
   sendDataTo (exportKey p256_base_point_spki) ''t1'' [42] init = Inr init \<and>
   flushDataQueue (exportKey p256_base_point_spki) init = init \<and>
   REGISTERED_USERS init ''ANONYMOUS'' = None \<and>
   sendDataTo ''ANONYMOUS'' ''t1'' [42] init = Inr init \<and>
   flushDataQueue ''ANONYMOUS'' init = init"
proof -
  have h1: "length p256_base_point_spki = 91" by simp
  have h2: "REGISTERED_USERS init (exportKey p256_base_point_spki) = None"
    by (simp add: init_def)
  have h3: "REGISTERED_USERS init ''ANONYMOUS'' = None" by (simp add: init_def)
  from sendDataTo_unregistered_identity_noop [of p256_base_point_spki init "''t1''" "[42]"] h1 h2 h3
  show ?thesis by blast
qed

end
